theory Spec2Isabelle
  imports Main
begin

section \<open>The dual-key gesture handler (KeyHandler)\<close>

text \<open>
  A shallow embedding of the class \<open>KeyHandler\<close>
  (package \<open>org.mokee.settings.device.smartisan\<close>). Java \<open>int\<close> and \<open>long\<close> values
  are only copied and compared by the class, never computed with (apart from the deadline
  of a delayed post), so they are modelled as \<open>int\<close>. The fields of the class become a
  record that every method takes and returns; the two platform objects the class writes
  to, the main-looper \<open>Handler\<close> and the input/screenshot services, become two more
  components of that record: the queue of pending posts of \<open>triggerPartialScreenshot\<close>
  and the trace of requests issued so far.
\<close>

subsection \<open>Platform constants and values\<close>

definition ACTION_DOWN :: int where
  "ACTION_DOWN = 0"

definition ACTION_UP :: int where
  "ACTION_UP = 1"

definition FLAG_CANCELED :: int where
  "FLAG_CANCELED = 32"

definition TRUSTED_SHORTCUTS_DEVICE_NAME :: string where
  "TRUSTED_SHORTCUTS_DEVICE_NAME = ''gpio-keys''"

definition TRUSTED_POWER_DEVICE_NAME :: string where
  "TRUSTED_POWER_DEVICE_NAME = ''qpnp_pon''"

text \<open>The four getters of \<open>android.view.KeyEvent\<close> that the handler reads.\<close>

record KeyEvent =
  deviceId :: int
  scanCode :: int
  keyCode :: int
  action :: int

text \<open>
  What the platform answers during one call: the input-device registry
  (\<open>InputDevice.getDevice(id)\<close> followed by \<open>getName()\<close>; \<open>None\<close> is Java's \<open>null\<close>),
  \<open>PowerManager.isInteractive()\<close> and \<open>SystemClock.uptimeMillis()\<close>.
\<close>

record Env =
  devices :: "int \<Rightarrow> string option"
  interactive :: bool
  uptimeMillis :: int

text \<open>Requests the handler issues to the platform, in the order it issues them.\<close>

datatype effect =
    InjectKey int int int
  | TakeScreenshot bool

record KeyHandler =
  longPressTimeout :: int
  trustedShortcutsDeviceId :: int
  trustedPowerDeviceId :: int
  shortcutsKeyPressed :: bool
  powerKeyPressed :: bool
  shortcutsScanCode :: int
  shortcutsKeyCode :: int
  powerScanCode :: int
  powerKeyCode :: int
  queue :: "int list"
  out :: "effect list"

subsection \<open>The platform calls\<close>

text \<open>
  \<open>injectKey(code, action, flags)\<close> and \<open>takeScreenshot(partial)\<close> hand a request to the
  platform; the model appends it to the trace. The event time that \<open>injectKey\<close> stamps
  on the synthesized event is not recorded.
\<close>

definition injectKey :: "int \<Rightarrow> int \<Rightarrow> int \<Rightarrow> KeyHandler \<Rightarrow> KeyHandler" where
  "injectKey code act flags s = s\<lparr>out := out s @ [InjectKey code act flags]\<rparr>"

definition takeScreenshot :: "bool \<Rightarrow> KeyHandler \<Rightarrow> KeyHandler" where
  "takeScreenshot partial s = s\<lparr>out := out s @ [TakeScreenshot partial]\<rparr>"

text \<open>
  \<open>android.os.Handler\<close>, restricted to the one \<open>Runnable\<close> the class posts. The queue
  holds the uptime at which each pending post is due, earliest first.
  \<open>postDelayed(r, delay)\<close> enqueues one more message due at \<open>uptimeMillis() + delay\<close>
  (a negative delay counts as 0) behind the messages due no later; it removes nothing.
  \<open>removeCallbacks(r)\<close> removes every pending post of \<open>r\<close>.
\<close>

fun enqueueMessage :: "int \<Rightarrow> int list \<Rightarrow> int list" where
  "enqueueMessage w [] = [w]"
| "enqueueMessage w (x # xs) = (if w < x then w # x # xs else x # enqueueMessage w xs)"

definition postDelayed :: "int \<Rightarrow> int \<Rightarrow> KeyHandler \<Rightarrow> KeyHandler" where
  "postDelayed now delay s =
     s\<lparr>queue := enqueueMessage (now + (if delay < 0 then 0 else delay)) (queue s)\<rparr>"

definition removeCallbacks :: "KeyHandler \<Rightarrow> KeyHandler" where
  "removeCallbacks s = s\<lparr>queue := []\<rparr>"

definition getDeviceName :: "Env \<Rightarrow> KeyEvent \<Rightarrow> string option" where
  "getDeviceName env event = devices env (deviceId event)"

subsection \<open>The deferred action\<close>

text \<open>\<open>triggerPartialScreenshot.run()\<close>.\<close>

definition triggerPartialScreenshot :: "KeyHandler \<Rightarrow> KeyHandler" where
  "triggerPartialScreenshot s =
     (if shortcutsKeyPressed s \<and> powerKeyPressed s then
        let s1 = takeScreenshot True s;
            s2 = injectKey (shortcutsKeyCode s1) ACTION_UP FLAG_CANCELED s1;
            s3 = injectKey (powerKeyCode s2) ACTION_UP FLAG_CANCELED s2
        in s3\<lparr>shortcutsKeyPressed := False, powerKeyPressed := False\<rparr>
      else s)"

text \<open>
  The looper at uptime \<open>now\<close>: every pending post that is due is taken off the queue
  and run, in queue order. (\<open>run()\<close> posts nothing, so the queue it leaves is the one
  of the posts not yet due.)
\<close>

definition looper :: "int \<Rightarrow> KeyHandler \<Rightarrow> KeyHandler" where
  "looper now s =
     fold (\<lambda>_. triggerPartialScreenshot) (filter (\<lambda>w. w \<le> now) (queue s))
       (s\<lparr>queue := filter (\<lambda>w. \<not> w \<le> now) (queue s)\<rparr>)"

subsection \<open>The constructor\<close>

text \<open>
  \<open>Integer.parseInt(String)\<close> of the Java library on a line of ASCII characters (what
  the kernel writes to the two files), with \<open>NumberFormatException\<close> as \<open>None\<close>:
  \<open>null\<close> and the empty string fail; one leading \<open>-\<close> or \<open>+\<close> is allowed, followed by
  at least one digit and nothing but digits (no blanks); the value must fit 32 bits.
\<close>

definition digit :: "char \<Rightarrow> int option" where
  "digit c = map_of (zip ''0123456789'' [0, 1, 2, 3, 4, 5, 6, 7, 8, 9]) c"

fun digits :: "string \<Rightarrow> int \<Rightarrow> int option" where
  "digits [] acc = Some acc"
| "digits (c # cs) acc =
     (case digit c of None \<Rightarrow> None | Some d \<Rightarrow> digits cs (10 * acc + d))"

definition magnitude :: "string \<Rightarrow> int option" where
  "magnitude cs = (if cs = [] then None else digits cs 0)"

definition inInt32 :: "int \<Rightarrow> int option" where
  "inInt32 n = (if - 2147483648 \<le> n \<and> n \<le> 2147483647 then Some n else None)"

definition parseInt :: "string option \<Rightarrow> int option" where
  "parseInt line =
     (case line of
        None \<Rightarrow> None
      | Some [] \<Rightarrow> None
      | Some (c # cs) \<Rightarrow>
          if c = CHR ''-'' then
            (case magnitude cs of None \<Rightarrow> None | Some n \<Rightarrow> inInt32 (- n))
          else if c = CHR ''+'' then
            (case magnitude cs of None \<Rightarrow> None | Some n \<Rightarrow> inInt32 n)
          else
            (case magnitude (c # cs) of None \<Rightarrow> None | Some n \<Rightarrow> inInt32 n))"

text \<open>The field initialisers of the class; \<open>lpt\<close> is \<open>ViewConfiguration.getLongPressTimeout()\<close>.\<close>

definition initialFields :: "int \<Rightarrow> KeyHandler" where
  "initialFields lpt =
     \<lparr>longPressTimeout = lpt,
      trustedShortcutsDeviceId = 0, trustedPowerDeviceId = 0,
      shortcutsKeyPressed = False, powerKeyPressed = False,
      shortcutsScanCode = 0, shortcutsKeyCode = 0,
      powerScanCode = 0, powerKeyCode = 0,
      queue = [], out = []\<rparr>"

text \<open>
  \<open>KeyHandler(Context)\<close>. The two arguments are what \<open>FileUtils.readOneLine\<close> returns
  for \<open>/proc/keypad/shortcuts\<close> and \<open>/proc/keypad/power\<close> (\<open>None\<close> is \<open>null\<close>). Both
  assignments stand in one \<open>try\<close> block whose \<open>catch\<close> ignores the
  \<open>NumberFormatException\<close>: when the first \<open>parseInt\<close> throws, the second
  statement is not executed.
\<close>

definition newKeyHandler :: "int \<Rightarrow> string option \<Rightarrow> string option \<Rightarrow> KeyHandler" where
  "newKeyHandler lpt shortcutsLine powerLine =
     (let s = initialFields lpt in
      case parseInt shortcutsLine of
        None \<Rightarrow> s
      | Some a \<Rightarrow>
          let s1 = s\<lparr>shortcutsScanCode := a\<rparr> in
          (case parseInt powerLine of
             None \<Rightarrow> s1
           | Some b \<Rightarrow> s1\<lparr>powerScanCode := b\<rparr>))"

subsection \<open>Event handling\<close>

text \<open>
  The first \<open>if\<close> of \<open>handleShortcutsKeyEvent\<close>: \<open>None\<close> is a \<open>return false\<close>,
  \<open>Some\<close> the state with which the method goes on.
\<close>

definition shortcutsTrust :: "Env \<Rightarrow> KeyEvent \<Rightarrow> KeyHandler \<Rightarrow> KeyHandler option" where
  "shortcutsTrust env event s =
     (if trustedShortcutsDeviceId s = 0 then
        (if getDeviceName env event = Some TRUSTED_SHORTCUTS_DEVICE_NAME
         then Some (s\<lparr>trustedShortcutsDeviceId := deviceId event\<rparr>)
         else None)
      else
        (if trustedShortcutsDeviceId s \<noteq> deviceId event then None else Some s))"

text \<open>The \<open>switch\<close> of \<open>handleShortcutsKeyEvent\<close>; it has no default case.\<close>

definition shortcutsSwitch :: "Env \<Rightarrow> KeyEvent \<Rightarrow> KeyHandler \<Rightarrow> KeyHandler" where
  "shortcutsSwitch env event s =
     (if action event = ACTION_DOWN then
        let s1 = (if powerKeyPressed s then
                    postDelayed (uptimeMillis env) (longPressTimeout s)
                      (injectKey (powerKeyCode s) ACTION_UP FLAG_CANCELED s)
                  else injectKey (shortcutsKeyCode s) ACTION_DOWN 0 s)
        in (if interactive env then s1\<lparr>shortcutsKeyPressed := True\<rparr> else s1)
      else if action event = ACTION_UP then
        let s1 = (if powerKeyPressed s then
                    (takeScreenshot False s)\<lparr>powerKeyPressed := False\<rparr>
                  else injectKey (shortcutsKeyCode s) ACTION_UP 0 s)
        in (removeCallbacks s1)\<lparr>shortcutsKeyPressed := False\<rparr>
      else s)"

definition handleShortcutsKeyEvent :: "Env \<Rightarrow> KeyEvent \<Rightarrow> KeyHandler \<Rightarrow> bool \<times> KeyHandler" where
  "handleShortcutsKeyEvent env event s =
     (case shortcutsTrust env event s of
        None \<Rightarrow> (False, s)
      | Some s1 \<Rightarrow>
          if scanCode event = shortcutsScanCode s1 then
            (True, shortcutsSwitch env event (s1\<lparr>shortcutsKeyCode := keyCode event\<rparr>))
          else (False, s1))"

definition powerTrust :: "Env \<Rightarrow> KeyEvent \<Rightarrow> KeyHandler \<Rightarrow> KeyHandler option" where
  "powerTrust env event s =
     (if trustedPowerDeviceId s = 0 then
        (if getDeviceName env event = Some TRUSTED_POWER_DEVICE_NAME
         then Some (s\<lparr>trustedPowerDeviceId := deviceId event\<rparr>)
         else None)
      else
        (if trustedPowerDeviceId s \<noteq> deviceId event then None else Some s))"

definition powerSwitch :: "Env \<Rightarrow> KeyEvent \<Rightarrow> KeyHandler \<Rightarrow> KeyHandler" where
  "powerSwitch env event s =
     (if action event = ACTION_DOWN then
        let s1 = (if shortcutsKeyPressed s then
                    postDelayed (uptimeMillis env) (longPressTimeout s)
                      (injectKey (shortcutsKeyCode s) ACTION_UP FLAG_CANCELED s)
                  else injectKey (powerKeyCode s) ACTION_DOWN 0 s)
        in (if interactive env then s1\<lparr>powerKeyPressed := True\<rparr> else s1)
      else if action event = ACTION_UP then
        let s1 = (if shortcutsKeyPressed s then
                    (takeScreenshot False s)\<lparr>shortcutsKeyPressed := False\<rparr>
                  else injectKey (powerKeyCode s) ACTION_UP 0 s)
        in (removeCallbacks s1)\<lparr>powerKeyPressed := False\<rparr>
      else s)"

definition handlePowerKeyEvent :: "Env \<Rightarrow> KeyEvent \<Rightarrow> KeyHandler \<Rightarrow> bool \<times> KeyHandler" where
  "handlePowerKeyEvent env event s =
     (case powerTrust env event s of
        None \<Rightarrow> (False, s)
      | Some s1 \<Rightarrow>
          if scanCode event = powerScanCode s1 then
            (True, powerSwitch env event (s1\<lparr>powerKeyCode := keyCode event\<rparr>))
          else (False, s1))"

text \<open>
  \<open>handleKeyEvent\<close>: \<open>||\<close> evaluates the power handler only when the shortcuts handler
  returned false, on the state the shortcuts handler left. \<open>None\<close> is the \<open>null\<close> of a
  consumed event.
\<close>

definition handleKeyEvent :: "Env \<Rightarrow> KeyEvent \<Rightarrow> KeyHandler \<Rightarrow> KeyEvent option \<times> KeyHandler" where
  "handleKeyEvent env event s =
     (case handleShortcutsKeyEvent env event s of
        (True, s1) \<Rightarrow> (None, s1)
      | (False, s1) \<Rightarrow>
          (case handlePowerKeyEvent env event s1 of
             (True, s2) \<Rightarrow> (None, s2)
           | (False, s2) \<Rightarrow> (Some event, s2)))"

subsection \<open>Runs of the handler on its looper\<close>

text \<open>
  The caller serialises key events with the looper that runs the delayed posts. An input
  is a key event arriving at the uptime of its environment, or the passing of time up to
  a given uptime with no key event. Posts that are due when a key event arrives have run
  before it is handled.
\<close>

datatype input =
    KeyIn Env KeyEvent
  | Wait int

fun step :: "input \<Rightarrow> KeyHandler \<Rightarrow> KeyHandler" where
  "step (KeyIn env event) s = snd (handleKeyEvent env event (looper (uptimeMillis env) s))"
| "step (Wait t) s = looper t s"

definition run :: "input list \<Rightarrow> KeyHandler \<Rightarrow> KeyHandler" where
  "run ins s = fold step ins s"

text \<open>A sequence of calls of \<open>handleKeyEvent\<close> alone, with the value each call returns.\<close>

fun handleAll :: "(Env \<times> KeyEvent) list \<Rightarrow> KeyHandler \<Rightarrow> KeyEvent option list \<times> KeyHandler" where
  "handleAll [] s = ([], s)"
| "handleAll ((env, event) # rest) s =
     (let (r, s1) = handleKeyEvent env event s;
          (rs, s2) = handleAll rest s1
      in (r # rs, s2))"

subsection \<open>Vocabulary of the properties\<close>

text \<open>
  An event is accepted by a role when that role's handler returns true during
  \<open>handleKeyEvent\<close>; the power handler is only asked when the shortcuts handler has
  returned false.
\<close>

definition shortcutsAccepts :: "Env \<Rightarrow> KeyEvent \<Rightarrow> KeyHandler \<Rightarrow> bool" where
  "shortcutsAccepts env event s = fst (handleShortcutsKeyEvent env event s)"

definition powerAccepts :: "Env \<Rightarrow> KeyEvent \<Rightarrow> KeyHandler \<Rightarrow> bool" where
  "powerAccepts env event s =
     (\<not> fst (handleShortcutsKeyEvent env event s) \<and>
      fst (handlePowerKeyEvent env event (snd (handleShortcutsKeyEvent env event s))))"

text \<open>
  The device of an event is untrusted for both roles: it is the bound device of neither
  role, and its name is neither of the two expected hardware names.
\<close>

definition untrusted :: "Env \<Rightarrow> KeyEvent \<Rightarrow> KeyHandler \<Rightarrow> bool" where
  "untrusted env event s =
     ((trustedShortcutsDeviceId s = 0 \<or> trustedShortcutsDeviceId s \<noteq> deviceId event) \<and>
      (trustedPowerDeviceId s = 0 \<or> trustedPowerDeviceId s \<noteq> deviceId event) \<and>
      getDeviceName env event \<noteq> Some TRUSTED_SHORTCUTS_DEVICE_NAME \<and>
      getDeviceName env event \<noteq> Some TRUSTED_POWER_DEVICE_NAME)"

text \<open>Neither key is tracked as pressed and no post is pending.\<close>

definition idle :: "KeyHandler \<Rightarrow> bool" where
  "idle s = (\<not> shortcutsKeyPressed s \<and> \<not> powerKeyPressed s \<and> queue s = [])"

text \<open>
  A key code is held down in the injected stream when the last event injected for it is
  a down event. (Every down event the handler injects is a genuine one, with flags 0.)
\<close>

fun heldAfter :: "int \<Rightarrow> bool \<Rightarrow> effect \<Rightarrow> bool" where
  "heldAfter code held (InjectKey c a f) = (if c = code then a = ACTION_DOWN else held)"
| "heldAfter code held (TakeScreenshot p) = held"

definition heldDown :: "int \<Rightarrow> effect list \<Rightarrow> bool" where
  "heldDown code es = foldl (heldAfter code) False es"

definition screenshots :: "bool \<Rightarrow> effect list \<Rightarrow> nat" where
  "screenshots partial es = length (filter (\<lambda>e. e = TakeScreenshot partial) es)"

text \<open>
  A run in which no role gets a second accepted down-edge unless an accepted up-edge (of
  either role) came in between. The two flags say which roles have had an accepted
  down-edge since the last accepted up-edge.
\<close>

fun alternating :: "bool \<Rightarrow> bool \<Rightarrow> input list \<Rightarrow> KeyHandler \<Rightarrow> bool" where
  "alternating dS dP [] s = True"
| "alternating dS dP (Wait t # ins) s = alternating dS dP ins (step (Wait t) s)"
| "alternating dS dP (KeyIn env event # ins) s =
     (let s0 = looper (uptimeMillis env) s; s1 = step (KeyIn env event) s in
      if action event = ACTION_DOWN \<and> shortcutsAccepts env event s0
        then \<not> dS \<and> alternating True dP ins s1
      else if action event = ACTION_DOWN \<and> powerAccepts env event s0
        then \<not> dP \<and> alternating dS True ins s1
      else if action event = ACTION_UP \<and>
              (shortcutsAccepts env event s0 \<or> powerAccepts env event s0)
        then alternating False False ins s1
      else alternating dS dP ins s1)"

subsection \<open>Concrete inputs\<close>

text \<open>
  A registry with the two expected devices (ids 3 and 4), a second device that
  reports the shortcuts hardware name (id 7) and a touch screen (id 9); a handler configured with the scan codes
  250 and 116 and a long-press timeout of 500 ms.
\<close>

definition exampleDevices :: "int \<Rightarrow> string option" where
  "exampleDevices d =
     (if d = 3 then Some ''gpio-keys'' else if d = 4 then Some ''qpnp_pon''
      else if d = 7 then Some ''gpio-keys'' else if d = 9 then Some ''synaptics_dsx''
      else None)"

definition exampleEnv :: "bool \<Rightarrow> int \<Rightarrow> Env" where
  "exampleEnv on t = \<lparr>devices = exampleDevices, interactive = on, uptimeMillis = t\<rparr>"

definition shortcutsKey :: "int \<Rightarrow> KeyEvent" where
  "shortcutsKey a = \<lparr>deviceId = 3, scanCode = 250, keyCode = 300, action = a\<rparr>"

definition powerKey :: "int \<Rightarrow> KeyEvent" where
  "powerKey a = \<lparr>deviceId = 4, scanCode = 116, keyCode = 26, action = a\<rparr>"

definition otherKey :: "int \<Rightarrow> int \<Rightarrow> int \<Rightarrow> KeyEvent" where
  "otherKey d c a = \<lparr>deviceId = d, scanCode = c, keyCode = 300, action = a\<rparr>"

text \<open>
  Both keys pressed with the screen off; and both keys pressed and released in turn with
  the screen on, each key's down-edges and up-edges alternating.
\<close>

definition screenOffPresses :: "input list" where
  "screenOffPresses =
     [KeyIn (exampleEnv False 0) (shortcutsKey ACTION_DOWN),
      KeyIn (exampleEnv False 100) (powerKey ACTION_DOWN)]"

definition interleavedPresses :: "input list" where
  "interleavedPresses =
     [KeyIn (exampleEnv True 0) (shortcutsKey ACTION_DOWN),
      KeyIn (exampleEnv True 100) (powerKey ACTION_DOWN),
      KeyIn (exampleEnv True 200) (powerKey ACTION_UP),
      KeyIn (exampleEnv True 300) (powerKey ACTION_DOWN),
      KeyIn (exampleEnv True 400) (shortcutsKey ACTION_UP),
      KeyIn (exampleEnv True 500) (shortcutsKey ACTION_DOWN)]"

definition exampleHandler :: KeyHandler where
  "exampleHandler = newKeyHandler 500 (Some ''250'') (Some ''116'')"

definition boundHandler :: KeyHandler where
  "boundHandler = exampleHandler\<lparr>trustedShortcutsDeviceId := 3, trustedPowerDeviceId := 4\<rparr>"

text \<open>
  The same registry with one more device: the built-in keyboard id 0 reporting the
  shortcuts hardware name; the screen is on.
\<close>

definition zeroIdEnv :: "int \<Rightarrow> Env" where
  "zeroIdEnv t =
     \<lparr>devices = exampleDevices(0 := Some ''gpio-keys''), interactive = True,
      uptimeMillis = t\<rparr>"

section \<open>Properties\<close>

subsection \<open>Unfolding and evaluation\<close>

lemmas platform_defs = injectKey_def takeScreenshot_def postDelayed_def removeCallbacks_def
  getDeviceName_def

lemmas handler_defs = handleKeyEvent_def handleShortcutsKeyEvent_def handlePowerKeyEvent_def
  shortcutsTrust_def powerTrust_def shortcutsSwitch_def powerSwitch_def

lemmas name_defs = TRUSTED_SHORTCUTS_DEVICE_NAME_def TRUSTED_POWER_DEVICE_NAME_def

lemmas example_defs = exampleEnv_def exampleDevices_def shortcutsKey_def powerKey_def
  otherKey_def ACTION_DOWN_def ACTION_UP_def FLAG_CANCELED_def

lemma exampleHandler_eq:
  "exampleHandler = \<lparr>longPressTimeout = 500,
      trustedShortcutsDeviceId = 0, trustedPowerDeviceId = 0,
      shortcutsKeyPressed = False, powerKeyPressed = False,
      shortcutsScanCode = 250, shortcutsKeyCode = 0,
      powerScanCode = 116, powerKeyCode = 0,
      queue = [], out = []\<rparr>"
  by (simp add: exampleHandler_def newKeyHandler_def initialFields_def parseInt_def
      magnitude_def digit_def inInt32_def)

lemma boundHandler_eq:
  "boundHandler = \<lparr>longPressTimeout = 500,
      trustedShortcutsDeviceId = 3, trustedPowerDeviceId = 4,
      shortcutsKeyPressed = False, powerKeyPressed = False,
      shortcutsScanCode = 250, shortcutsKeyCode = 0,
      powerScanCode = 116, powerKeyCode = 0,
      queue = [], out = []\<rparr>"
  by (simp add: boundHandler_def exampleHandler_eq)

lemmas run_defs = run_def looper_def triggerPartialScreenshot_def handler_defs platform_defs
  name_defs example_defs exampleHandler_eq Let_def

lemma exampleEnv_sel:
  "devices (exampleEnv on t) = exampleDevices"
  "interactive (exampleEnv on t) = on"
  "uptimeMillis (exampleEnv on t) = t"
  by (simp_all add: exampleEnv_def)

lemma exampleEnv_on: "interactive (exampleEnv True t)"
  by (simp add: exampleEnv_def)

lemma exampleKey_sel:
  "action (shortcutsKey a) = a" "keyCode (shortcutsKey a) = 300"
  "action (powerKey a) = a" "keyCode (powerKey a) = 26"
  by (simp_all add: shortcutsKey_def powerKey_def)

lemma parseInt_examples:
  "parseInt (Some ''250'') = Some 250" "parseInt (Some ''116'') = Some 116"
  "parseInt (Some ''n/a'') = None" "parseInt None = None"
  by (simp_all add: parseInt_def magnitude_def digit_def inInt32_def)

lemma trustedShortcuts_same:
  "trustedShortcutsDeviceId s = d \<Longrightarrow> s\<lparr>trustedShortcutsDeviceId := d\<rparr> = s"
  by auto

lemma trustedPower_same:
  "trustedPowerDeviceId s = d \<Longrightarrow> s\<lparr>trustedPowerDeviceId := d\<rparr> = s"
  by auto

lemma pair_collapse:
  "handleKeyEvent env event s =
     (fst (handleKeyEvent env event s), snd (handleKeyEvent env event s))"
  by simp

subsection \<open>What one call does\<close>

text \<open>
  An accepted event runs the role's \<open>switch\<close> on the state with the trusted device
  id and the learned key code set; a rejected one changes at most the trusted device id.
\<close>

lemma shortcuts_accepted:
  assumes "shortcutsAccepts env event s"
  shows "handleKeyEvent env event s =
    (None, shortcutsSwitch env event
       (s\<lparr>trustedShortcutsDeviceId := deviceId event, shortcutsKeyCode := keyCode event\<rparr>))"
  using assms
  by (auto simp: shortcutsAccepts_def handleKeyEvent_def handleShortcutsKeyEvent_def
      shortcutsTrust_def trustedShortcuts_same split: if_splits option.splits)

lemma shortcuts_rejected:
  assumes "\<not> fst (handleShortcutsKeyEvent env event s)"
  shows "snd (handleShortcutsKeyEvent env event s) = s \<or>
    snd (handleShortcutsKeyEvent env event s) = s\<lparr>trustedShortcutsDeviceId := deviceId event\<rparr>"
  using assms
  by (simp add: handleShortcutsKeyEvent_def shortcutsTrust_def split: if_splits)

lemma shortcuts_rejected_frame:
  assumes "\<not> fst (handleShortcutsKeyEvent env event s)"
  shows "shortcutsKeyPressed (snd (handleShortcutsKeyEvent env event s)) = shortcutsKeyPressed s"
    and "powerKeyPressed (snd (handleShortcutsKeyEvent env event s)) = powerKeyPressed s"
    and "out (snd (handleShortcutsKeyEvent env event s)) = out s"
    and "queue (snd (handleShortcutsKeyEvent env event s)) = queue s"
    and "shortcutsKeyCode (snd (handleShortcutsKeyEvent env event s)) = shortcutsKeyCode s"
    and "powerKeyCode (snd (handleShortcutsKeyEvent env event s)) = powerKeyCode s"
    and "longPressTimeout (snd (handleShortcutsKeyEvent env event s)) = longPressTimeout s"
  using shortcuts_rejected [OF assms] by auto

lemma power_accepted:
  assumes "powerAccepts env event s"
  shows "handleKeyEvent env event s =
    (None, powerSwitch env event
       ((snd (handleShortcutsKeyEvent env event s))
          \<lparr>trustedPowerDeviceId := deviceId event, powerKeyCode := keyCode event\<rparr>))"
proof -
  obtain b s1 where s1: "handleShortcutsKeyEvent env event s = (b, s1)"
    by (cases "handleShortcutsKeyEvent env event s")
  with assms have b: "\<not> b" and p: "fst (handlePowerKeyEvent env event s1)"
    by (simp_all add: powerAccepts_def)
  from p have "handlePowerKeyEvent env event s1 =
    (True, powerSwitch env event
       (s1\<lparr>trustedPowerDeviceId := deviceId event, powerKeyCode := keyCode event\<rparr>))"
    by (auto simp: handlePowerKeyEvent_def powerTrust_def trustedPower_same
        split: if_splits)
  with s1 b show ?thesis by (simp add: handleKeyEvent_def)
qed

lemma power_rejected:
  assumes "\<not> fst (handlePowerKeyEvent env event s)"
  shows "snd (handlePowerKeyEvent env event s) = s \<or>
    snd (handlePowerKeyEvent env event s) = s\<lparr>trustedPowerDeviceId := deviceId event\<rparr>"
  using assms
  by (simp add: handlePowerKeyEvent_def powerTrust_def split: if_splits)

lemma power_rejected_frame:
  assumes "\<not> fst (handlePowerKeyEvent env event s)"
  shows "shortcutsKeyPressed (snd (handlePowerKeyEvent env event s)) = shortcutsKeyPressed s"
    and "powerKeyPressed (snd (handlePowerKeyEvent env event s)) = powerKeyPressed s"
    and "out (snd (handlePowerKeyEvent env event s)) = out s"
    and "queue (snd (handlePowerKeyEvent env event s)) = queue s"
  using power_rejected [OF assms] by auto

lemma accepts_exclusive: "powerAccepts env event s \<Longrightarrow> \<not> shortcutsAccepts env event s"
  by (simp add: powerAccepts_def shortcutsAccepts_def)

lemma handleKeyEvent_snd:
  "snd (handleKeyEvent env event s) =
     (if fst (handleShortcutsKeyEvent env event s) then snd (handleShortcutsKeyEvent env event s)
      else snd (handlePowerKeyEvent env event (snd (handleShortcutsKeyEvent env event s))))"
  by (simp add: handleKeyEvent_def split: prod.splits bool.splits)

text \<open>
  The requests, the pressed flags, the queue and the learned key codes after an accepted
  event, role by role and edge by edge.
\<close>

lemma shortcuts_down:
  assumes "shortcutsAccepts env event s" and "action event = ACTION_DOWN"
    and "handleKeyEvent env event s = (r, s')"
  shows "r = None"
    and "out s' = out s @
      [if powerKeyPressed s then InjectKey (powerKeyCode s) ACTION_UP FLAG_CANCELED
       else InjectKey (keyCode event) ACTION_DOWN 0]"
    and "shortcutsKeyPressed s' = (interactive env \<or> shortcutsKeyPressed s)"
    and "powerKeyPressed s' = powerKeyPressed s"
    and "queue s' =
      (if powerKeyPressed s
       then enqueueMessage (uptimeMillis env +
              (if longPressTimeout s < 0 then 0 else longPressTimeout s)) (queue s)
       else queue s)"
    and "shortcutsKeyCode s' = keyCode event" and "powerKeyCode s' = powerKeyCode s"
proof -
  from assms(3) shortcuts_accepted [OF assms(1)]
  have s': "s' = shortcutsSwitch env event
       (s\<lparr>trustedShortcutsDeviceId := deviceId event, shortcutsKeyCode := keyCode event\<rparr>)"
    and r: "r = None" by simp_all
  show "r = None" by (rule r)
  show "out s' = out s @
      [if powerKeyPressed s then InjectKey (powerKeyCode s) ACTION_UP FLAG_CANCELED
       else InjectKey (keyCode event) ACTION_DOWN 0]"
    and "shortcutsKeyPressed s' = (interactive env \<or> shortcutsKeyPressed s)"
    and "powerKeyPressed s' = powerKeyPressed s"
    and "queue s' =
      (if powerKeyPressed s
       then enqueueMessage (uptimeMillis env +
              (if longPressTimeout s < 0 then 0 else longPressTimeout s)) (queue s)
       else queue s)"
    and "shortcutsKeyCode s' = keyCode event" and "powerKeyCode s' = powerKeyCode s"
    using assms(2) by (simp_all add: s' shortcutsSwitch_def platform_defs Let_def)
qed

lemma shortcuts_up:
  assumes "shortcutsAccepts env event s" and "action event = ACTION_UP"
    and "handleKeyEvent env event s = (r, s')"
  shows "r = None"
    and "out s' = out s @
      [if powerKeyPressed s then TakeScreenshot False
       else InjectKey (keyCode event) ACTION_UP 0]"
    and "\<not> shortcutsKeyPressed s'" and "\<not> powerKeyPressed s'" and "queue s' = []"
    and "shortcutsKeyCode s' = keyCode event" and "powerKeyCode s' = powerKeyCode s"
proof -
  from assms(3) shortcuts_accepted [OF assms(1)]
  have s': "s' = shortcutsSwitch env event
       (s\<lparr>trustedShortcutsDeviceId := deviceId event, shortcutsKeyCode := keyCode event\<rparr>)"
    and r: "r = None" by simp_all
  have ne: "ACTION_UP \<noteq> ACTION_DOWN" by (simp add: ACTION_DOWN_def ACTION_UP_def)
  show "r = None" by (rule r)
  show "out s' = out s @
      [if powerKeyPressed s then TakeScreenshot False
       else InjectKey (keyCode event) ACTION_UP 0]"
    and "\<not> shortcutsKeyPressed s'" and "\<not> powerKeyPressed s'" and "queue s' = []"
    and "shortcutsKeyCode s' = keyCode event" and "powerKeyCode s' = powerKeyCode s"
    using assms(2) ne by (simp_all add: s' shortcutsSwitch_def platform_defs Let_def)
qed

lemma power_down:
  assumes "powerAccepts env event s" and "action event = ACTION_DOWN"
    and "handleKeyEvent env event s = (r, s')"
  shows "r = None"
    and "out s' = out s @
      [if shortcutsKeyPressed s then InjectKey (shortcutsKeyCode s) ACTION_UP FLAG_CANCELED
       else InjectKey (keyCode event) ACTION_DOWN 0]"
    and "powerKeyPressed s' = (interactive env \<or> powerKeyPressed s)"
    and "shortcutsKeyPressed s' = shortcutsKeyPressed s"
    and "queue s' =
      (if shortcutsKeyPressed s
       then enqueueMessage (uptimeMillis env +
              (if longPressTimeout s < 0 then 0 else longPressTimeout s)) (queue s)
       else queue s)"
    and "powerKeyCode s' = keyCode event" and "shortcutsKeyCode s' = shortcutsKeyCode s"
proof -
  from assms(1) have rej: "\<not> fst (handleShortcutsKeyEvent env event s)"
    by (simp add: powerAccepts_def)
  note fr = shortcuts_rejected_frame [OF rej]
  from assms(3) power_accepted [OF assms(1)]
  have s': "s' = powerSwitch env event
       ((snd (handleShortcutsKeyEvent env event s))
          \<lparr>trustedPowerDeviceId := deviceId event, powerKeyCode := keyCode event\<rparr>)"
    and r: "r = None" by simp_all
  show "r = None" by (rule r)
  show "out s' = out s @
      [if shortcutsKeyPressed s then InjectKey (shortcutsKeyCode s) ACTION_UP FLAG_CANCELED
       else InjectKey (keyCode event) ACTION_DOWN 0]"
    and "powerKeyPressed s' = (interactive env \<or> powerKeyPressed s)"
    and "shortcutsKeyPressed s' = shortcutsKeyPressed s"
    and "queue s' =
      (if shortcutsKeyPressed s
       then enqueueMessage (uptimeMillis env +
              (if longPressTimeout s < 0 then 0 else longPressTimeout s)) (queue s)
       else queue s)"
    and "powerKeyCode s' = keyCode event" and "shortcutsKeyCode s' = shortcutsKeyCode s"
    using assms(2) by (simp_all add: s' fr powerSwitch_def platform_defs Let_def)
qed

lemma power_up:
  assumes "powerAccepts env event s" and "action event = ACTION_UP"
    and "handleKeyEvent env event s = (r, s')"
  shows "r = None"
    and "out s' = out s @
      [if shortcutsKeyPressed s then TakeScreenshot False
       else InjectKey (keyCode event) ACTION_UP 0]"
    and "\<not> shortcutsKeyPressed s'" and "\<not> powerKeyPressed s'" and "queue s' = []"
    and "powerKeyCode s' = keyCode event" and "shortcutsKeyCode s' = shortcutsKeyCode s"
proof -
  from assms(1) have rej: "\<not> fst (handleShortcutsKeyEvent env event s)"
    by (simp add: powerAccepts_def)
  note fr = shortcuts_rejected_frame [OF rej]
  from assms(3) power_accepted [OF assms(1)]
  have s': "s' = powerSwitch env event
       ((snd (handleShortcutsKeyEvent env event s))
          \<lparr>trustedPowerDeviceId := deviceId event, powerKeyCode := keyCode event\<rparr>)"
    and r: "r = None" by simp_all
  have ne: "ACTION_UP \<noteq> ACTION_DOWN" by (simp add: ACTION_DOWN_def ACTION_UP_def)
  show "r = None" by (rule r)
  show "out s' = out s @
      [if shortcutsKeyPressed s then TakeScreenshot False
       else InjectKey (keyCode event) ACTION_UP 0]"
    and "\<not> shortcutsKeyPressed s'" and "\<not> powerKeyPressed s'" and "queue s' = []"
    and "powerKeyCode s' = keyCode event" and "shortcutsKeyCode s' = shortcutsKeyCode s"
    using assms(2) ne by (simp_all add: s' fr powerSwitch_def platform_defs Let_def)
qed

lemma not_accepted:
  assumes "\<not> shortcutsAccepts env event s" and "\<not> powerAccepts env event s"
    and "handleKeyEvent env event s = (r, s')"
  shows "r = Some event"
    and "shortcutsKeyPressed s' = shortcutsKeyPressed s"
    and "powerKeyPressed s' = powerKeyPressed s"
    and "out s' = out s" and "queue s' = queue s"
proof -
  from assms(1) have rej: "\<not> fst (handleShortcutsKeyEvent env event s)"
    by (simp add: shortcutsAccepts_def)
  with assms(2) have rejp:
    "\<not> fst (handlePowerKeyEvent env event (snd (handleShortcutsKeyEvent env event s)))"
    by (simp add: powerAccepts_def)
  from rej rejp assms(3)
  have s': "s' = snd (handlePowerKeyEvent env event (snd (handleShortcutsKeyEvent env event s)))"
    and r: "r = Some event"
    by (auto simp: handleKeyEvent_def split: prod.splits bool.splits)
  show "r = Some event" by (rule r)
  show "shortcutsKeyPressed s' = shortcutsKeyPressed s"
    and "powerKeyPressed s' = powerKeyPressed s"
    and "out s' = out s" and "queue s' = queue s"
    by (simp_all add: s' power_rejected_frame [OF rejp] shortcuts_rejected_frame [OF rej])
qed

lemma other_action:
  assumes "action event \<noteq> ACTION_DOWN" and "action event \<noteq> ACTION_UP"
    and "handleKeyEvent env event s = (r, s')"
  shows "shortcutsKeyPressed s' = shortcutsKeyPressed s"
    and "powerKeyPressed s' = powerKeyPressed s"
    and "out s' = out s" and "queue s' = queue s"
proof -
  consider (S) "shortcutsAccepts env event s" | (P) "powerAccepts env event s"
    | (N) "\<not> shortcutsAccepts env event s" "\<not> powerAccepts env event s" by blast
  then have "shortcutsKeyPressed s' = shortcutsKeyPressed s \<and>
    powerKeyPressed s' = powerKeyPressed s \<and> out s' = out s \<and> queue s' = queue s"
  proof cases
    case S
    from assms(3) shortcuts_accepted [OF S]
    have s': "s' = shortcutsSwitch env event
       (s\<lparr>trustedShortcutsDeviceId := deviceId event, shortcutsKeyCode := keyCode event\<rparr>)"
      by simp
    show ?thesis using assms(1,2) by (simp add: s' shortcutsSwitch_def)
  next
    case P
    then have rej: "\<not> fst (handleShortcutsKeyEvent env event s)"
      by (simp add: powerAccepts_def)
    from assms(3) power_accepted [OF P]
    have s': "s' = powerSwitch env event
       ((snd (handleShortcutsKeyEvent env event s))
          \<lparr>trustedPowerDeviceId := deviceId event, powerKeyCode := keyCode event\<rparr>)"
      by simp
    show ?thesis using assms(1,2)
      by (simp add: s' powerSwitch_def shortcuts_rejected_frame [OF rej])
  next
    case N
    from not_accepted [OF N assms(3)] show ?thesis by simp
  qed
  then show "shortcutsKeyPressed s' = shortcutsKeyPressed s"
    and "powerKeyPressed s' = powerKeyPressed s"
    and "out s' = out s" and "queue s' = queue s"
    by simp_all
qed

lemma flag_set_only_by_down:
  assumes "handleKeyEvent env event s = (r, s')"
  shows "shortcutsKeyPressed s' \<and> \<not> shortcutsKeyPressed s \<longrightarrow>
      shortcutsAccepts env event s \<and> action event = ACTION_DOWN \<and> interactive env"
    and "powerKeyPressed s' \<and> \<not> powerKeyPressed s \<longrightarrow>
      powerAccepts env event s \<and> action event = ACTION_DOWN \<and> interactive env"
proof -
  consider (D) "action event = ACTION_DOWN" | (U) "action event = ACTION_UP"
    | (O) "action event \<noteq> ACTION_DOWN" "action event \<noteq> ACTION_UP" by blast
  then have "(shortcutsKeyPressed s' \<and> \<not> shortcutsKeyPressed s \<longrightarrow>
      shortcutsAccepts env event s \<and> action event = ACTION_DOWN \<and> interactive env) \<and>
    (powerKeyPressed s' \<and> \<not> powerKeyPressed s \<longrightarrow>
      powerAccepts env event s \<and> action event = ACTION_DOWN \<and> interactive env)"
  proof cases
    case D
    consider (S) "shortcutsAccepts env event s" | (P) "powerAccepts env event s"
      | (N) "\<not> shortcutsAccepts env event s" "\<not> powerAccepts env event s" by blast
    then show ?thesis
    proof cases
      case S
      from shortcuts_down(3,4) [OF S D assms] S D show ?thesis by auto
    next
      case P
      from power_down(3,4) [OF P D assms] P D show ?thesis by auto
    next
      case N
      from not_accepted(2,3) [OF N assms] show ?thesis by auto
    qed
  next
    case U
    consider (S) "shortcutsAccepts env event s" | (P) "powerAccepts env event s"
      | (N) "\<not> shortcutsAccepts env event s" "\<not> powerAccepts env event s" by blast
    then show ?thesis
    proof cases
      case S
      from shortcuts_up(3,4) [OF S U assms] show ?thesis by auto
    next
      case P
      from power_up(3,4) [OF P U assms] show ?thesis by auto
    next
      case N
      from not_accepted(2,3) [OF N assms] show ?thesis by auto
    qed
  next
    case O
    from other_action(1,2) [OF O assms] show ?thesis by auto
  qed
  then show "shortcutsKeyPressed s' \<and> \<not> shortcutsKeyPressed s \<longrightarrow>
      shortcutsAccepts env event s \<and> action event = ACTION_DOWN \<and> interactive env"
    and "powerKeyPressed s' \<and> \<not> powerKeyPressed s \<longrightarrow>
      powerAccepts env event s \<and> action event = ACTION_DOWN \<and> interactive env"
    by simp_all
qed

lemma trigger_clears_only:
  "shortcutsKeyPressed (triggerPartialScreenshot s) \<longrightarrow> shortcutsKeyPressed s"
  "powerKeyPressed (triggerPartialScreenshot s) \<longrightarrow> powerKeyPressed s"
  by (simp_all add: triggerPartialScreenshot_def platform_defs Let_def)

lemma trigger_resolved:
  "\<not> (shortcutsKeyPressed x \<and> powerKeyPressed x) \<Longrightarrow> triggerPartialScreenshot x = x"
  by (auto simp: triggerPartialScreenshot_def)

lemma example_accepts:
  "shortcutsAccepts (exampleEnv on t) (shortcutsKey a) exampleHandler"
  "powerAccepts (exampleEnv on t) (powerKey a) exampleHandler"
  by (simp_all add: shortcutsAccepts_def powerAccepts_def handleShortcutsKeyEvent_def
      handlePowerKeyEvent_def shortcutsTrust_def powerTrust_def getDeviceName_def
      exampleHandler_eq exampleEnv_def exampleDevices_def shortcutsKey_def powerKey_def
      name_defs)

lemma example_gesture:
  "idle exampleHandler"
  "powerAccepts (exampleEnv True 100) (powerKey a)
     (run [KeyIn (exampleEnv True 0) (shortcutsKey ACTION_DOWN)] exampleHandler)"
  "powerAccepts (exampleEnv True 300) (powerKey a)
     (run [KeyIn (exampleEnv True 0) (shortcutsKey ACTION_DOWN),
           KeyIn (exampleEnv True 100) (powerKey ACTION_DOWN)] exampleHandler)"
  by (simp_all add: idle_def run_defs shortcutsAccepts_def powerAccepts_def)

subsection \<open>The looper and runs\<close>

lemma fold_trigger_queue:
  "queue (fold (\<lambda>_. triggerPartialScreenshot) ws s) = queue s"
  by (induction ws arbitrary: s)
    (simp_all add: triggerPartialScreenshot_def platform_defs Let_def)

lemma looper_queue: "queue (looper t s) = filter (\<lambda>w. \<not> w \<le> t) (queue s)"
  by (simp add: looper_def fold_trigger_queue)

lemma looper_idle: "queue s = [] \<Longrightarrow> looper t s = s"
  by (simp add: looper_def)

lemma fold_trigger_flags:
  "shortcutsKeyPressed (fold (\<lambda>_. triggerPartialScreenshot) ws s) \<Longrightarrow> shortcutsKeyPressed s"
  "powerKeyPressed (fold (\<lambda>_. triggerPartialScreenshot) ws s) \<Longrightarrow> powerKeyPressed s"
  by (induction ws arbitrary: s)
    (auto simp: triggerPartialScreenshot_def platform_defs Let_def split: if_splits)

lemma looper_flags:
  "shortcutsKeyPressed (looper t s) \<Longrightarrow> shortcutsKeyPressed s"
  "powerKeyPressed (looper t s) \<Longrightarrow> powerKeyPressed s"
  using fold_trigger_flags [of "filter (\<lambda>w. w \<le> t) (queue s)"
      "s\<lparr>queue := filter (\<lambda>w. \<not> w \<le> t) (queue s)\<rparr>"]
  by (simp_all add: looper_def)

lemma run_waits_idle: "queue s = [] \<Longrightarrow> run (map Wait ts) s = s"
  unfolding run_def by (induction ts) (simp_all add: looper_idle)

lemma run_single: "run [i] s = step i s"
  by (simp add: run_def)

lemma longPressTimeout_handleKeyEvent:
  "longPressTimeout (snd (handleKeyEvent env event s)) = longPressTimeout s"
  by (simp add: handleKeyEvent_snd handleShortcutsKeyEvent_def handlePowerKeyEvent_def
      shortcutsTrust_def powerTrust_def shortcutsSwitch_def powerSwitch_def platform_defs
      Let_def)

lemma screenshots_append:
  "screenshots p (es @ fs) = screenshots p es + screenshots p fs"
  by (simp add: screenshots_def)

lemma heldDown_snoc: "heldDown code (es @ [e]) = heldAfter code (heldDown code es) e"
  by (simp add: heldDown_def)

lemma length_enqueueMessage: "length (enqueueMessage w ws) = Suc (length ws)"
  by (induction ws) simp_all

subsection \<open>Device trust\<close>

lemma triggerPartialScreenshot_trusted:
  "trustedShortcutsDeviceId (triggerPartialScreenshot s) = trustedShortcutsDeviceId s"
  "trustedPowerDeviceId (triggerPartialScreenshot s) = trustedPowerDeviceId s"
  by (simp_all add: triggerPartialScreenshot_def platform_defs Let_def)

lemma fold_trigger_trusted:
  "trustedShortcutsDeviceId (fold (\<lambda>_. triggerPartialScreenshot) ws s) = trustedShortcutsDeviceId s"
  "trustedPowerDeviceId (fold (\<lambda>_. triggerPartialScreenshot) ws s) = trustedPowerDeviceId s"
  by (induction ws arbitrary: s) (simp_all add: triggerPartialScreenshot_trusted)

lemma looper_trusted:
  "trustedShortcutsDeviceId (looper t s) = trustedShortcutsDeviceId s"
  "trustedPowerDeviceId (looper t s) = trustedPowerDeviceId s"
  by (simp_all add: looper_def fold_trigger_trusted)

lemma switch_trusted:
  "trustedShortcutsDeviceId (shortcutsSwitch env event s) = trustedShortcutsDeviceId s"
  "trustedPowerDeviceId (shortcutsSwitch env event s) = trustedPowerDeviceId s"
  "trustedShortcutsDeviceId (powerSwitch env event s) = trustedShortcutsDeviceId s"
  "trustedPowerDeviceId (powerSwitch env event s) = trustedPowerDeviceId s"
  by (simp_all add: shortcutsSwitch_def powerSwitch_def platform_defs Let_def)

lemma handleShortcuts_bound:
  "trustedShortcutsDeviceId s \<noteq> 0 \<Longrightarrow>
     trustedShortcutsDeviceId (snd (handleShortcutsKeyEvent env event s)) = trustedShortcutsDeviceId s"
  "trustedPowerDeviceId (snd (handleShortcutsKeyEvent env event s)) = trustedPowerDeviceId s"
  by (simp_all add: handleShortcutsKeyEvent_def shortcutsTrust_def switch_trusted)

lemma handlePower_bound:
  "trustedPowerDeviceId s \<noteq> 0 \<Longrightarrow>
     trustedPowerDeviceId (snd (handlePowerKeyEvent env event s)) = trustedPowerDeviceId s"
  "trustedShortcutsDeviceId (snd (handlePowerKeyEvent env event s)) = trustedShortcutsDeviceId s"
  by (simp_all add: handlePowerKeyEvent_def powerTrust_def switch_trusted)

lemma handleKeyEvent_bound:
  "trustedShortcutsDeviceId s \<noteq> 0 \<Longrightarrow>
     trustedShortcutsDeviceId (snd (handleKeyEvent env event s)) = trustedShortcutsDeviceId s"
  "trustedPowerDeviceId s \<noteq> 0 \<Longrightarrow>
     trustedPowerDeviceId (snd (handleKeyEvent env event s)) = trustedPowerDeviceId s"
  by (simp_all add: handleKeyEvent_snd handleShortcuts_bound handlePower_bound)

lemma step_bound:
  "trustedShortcutsDeviceId s \<noteq> 0 \<Longrightarrow>
     trustedShortcutsDeviceId (step i s) = trustedShortcutsDeviceId s"
  "trustedPowerDeviceId s \<noteq> 0 \<Longrightarrow>
     trustedPowerDeviceId (step i s) = trustedPowerDeviceId s"
  by (cases i; simp add: handleKeyEvent_bound looper_trusted)+

lemma run_bound:
  "trustedShortcutsDeviceId s \<noteq> 0 \<Longrightarrow>
     trustedShortcutsDeviceId (run ins s) = trustedShortcutsDeviceId s"
  "trustedPowerDeviceId s \<noteq> 0 \<Longrightarrow>
     trustedPowerDeviceId (run ins s) = trustedPowerDeviceId s"
  unfolding run_def
  by (induction ins arbitrary: s) (simp_all add: step_bound)

text \<open>
  Claim C5 says that the first successful device-name match binds the role for good.
  The field holds 0 while the role is unbound, and the binding assigns the device id of
  the event: the first matching device having the id 0, its event is accepted and the
  field is still 0. The event of device 7, another id with the same name, is then
  accepted instead of rejected and changes the field to 7, after which the events of
  device 0 are rejected.
\<close>

theorem binding_by_device_zero_counterexample:
  "handleShortcutsKeyEvent (zeroIdEnv 0) (otherKey 0 250 ACTION_DOWN) exampleHandler =
     (True, run [KeyIn (zeroIdEnv 0) (otherKey 0 250 ACTION_DOWN)] exampleHandler) \<and>
   trustedShortcutsDeviceId
     (run [KeyIn (zeroIdEnv 0) (otherKey 0 250 ACTION_DOWN)] exampleHandler) = 0 \<and>
   shortcutsAccepts (zeroIdEnv 100) (otherKey 7 250 ACTION_UP)
     (run [KeyIn (zeroIdEnv 0) (otherKey 0 250 ACTION_DOWN)] exampleHandler) \<and>
   trustedShortcutsDeviceId
     (run [KeyIn (zeroIdEnv 0) (otherKey 0 250 ACTION_DOWN),
           KeyIn (zeroIdEnv 100) (otherKey 7 250 ACTION_UP)] exampleHandler) = 7 \<and>
   \<not> shortcutsAccepts (zeroIdEnv 200) (otherKey 0 250 ACTION_UP)
     (run [KeyIn (zeroIdEnv 0) (otherKey 0 250 ACTION_DOWN),
           KeyIn (zeroIdEnv 100) (otherKey 7 250 ACTION_UP)] exampleHandler)"
  by (simp add: run_defs zeroIdEnv_def shortcutsAccepts_def)

text \<open>
  Claim C5, as the code has it. A role is bound when its trusted device id is not 0, the
  value the field is initialised with. The first event of a device with the expected name
  sets the trusted id to that device's id, and when that id is not 0 the role is bound
  from then on: no run of key events and timer firings changes the trusted device id of
  a bound role, and after every such run the role's handler rejects every event of
  another device without touching the state, whatever name that device reports. While a
  role is unbound, an event of a device whose name is not the expected one is rejected
  and leaves the role unbound.
\<close>

theorem trusted_device_binding_monotonic:
  "(trustedShortcutsDeviceId s \<noteq> 0 \<longrightarrow>
      trustedShortcutsDeviceId (run ins s) = trustedShortcutsDeviceId s \<and>
      (deviceId event \<noteq> trustedShortcutsDeviceId s \<longrightarrow>
         handleShortcutsKeyEvent env event (run ins s) = (False, run ins s))) \<and>
   (trustedPowerDeviceId s \<noteq> 0 \<longrightarrow>
      trustedPowerDeviceId (run ins s) = trustedPowerDeviceId s \<and>
      (deviceId event \<noteq> trustedPowerDeviceId s \<longrightarrow>
         handlePowerKeyEvent env event (run ins s) = (False, run ins s))) \<and>
   (trustedShortcutsDeviceId s = 0 \<and>
    getDeviceName env event \<noteq> Some TRUSTED_SHORTCUTS_DEVICE_NAME \<longrightarrow>
      handleShortcutsKeyEvent env event s = (False, s)) \<and>
   (trustedPowerDeviceId s = 0 \<and>
    getDeviceName env event \<noteq> Some TRUSTED_POWER_DEVICE_NAME \<longrightarrow>
      handlePowerKeyEvent env event s = (False, s)) \<and>
   (trustedShortcutsDeviceId s = 0 \<and>
    getDeviceName env event = Some TRUSTED_SHORTCUTS_DEVICE_NAME \<longrightarrow>
      trustedShortcutsDeviceId (snd (handleShortcutsKeyEvent env event s)) = deviceId event) \<and>
   (trustedPowerDeviceId s = 0 \<and>
    getDeviceName env event = Some TRUSTED_POWER_DEVICE_NAME \<longrightarrow>
      trustedPowerDeviceId (snd (handlePowerKeyEvent env event s)) = deviceId event) \<and>
   (trustedShortcutsDeviceId s = 0 \<and>
    getDeviceName env event = Some TRUSTED_SHORTCUTS_DEVICE_NAME \<and> deviceId event \<noteq> 0 \<longrightarrow>
      trustedShortcutsDeviceId (run ins (snd (handleShortcutsKeyEvent env event s))) =
        deviceId event) \<and>
   (trustedPowerDeviceId s = 0 \<and>
    getDeviceName env event = Some TRUSTED_POWER_DEVICE_NAME \<and> deviceId event \<noteq> 0 \<longrightarrow>
      trustedPowerDeviceId (run ins (snd (handlePowerKeyEvent env event s))) =
        deviceId event)"
proof -
  have bS: "trustedShortcutsDeviceId (snd (handleShortcutsKeyEvent env event s)) = deviceId event"
    if "trustedShortcutsDeviceId s = 0"
      and "getDeviceName env event = Some TRUSTED_SHORTCUTS_DEVICE_NAME"
    using that by (simp add: handleShortcutsKeyEvent_def shortcutsTrust_def switch_trusted)
  have bP: "trustedPowerDeviceId (snd (handlePowerKeyEvent env event s)) = deviceId event"
    if "trustedPowerDeviceId s = 0"
      and "getDeviceName env event = Some TRUSTED_POWER_DEVICE_NAME"
    using that by (simp add: handlePowerKeyEvent_def powerTrust_def switch_trusted)
  have "trustedShortcutsDeviceId (run ins (snd (handleShortcutsKeyEvent env event s))) =
      deviceId event"
    if "trustedShortcutsDeviceId s = 0"
      and "getDeviceName env event = Some TRUSTED_SHORTCUTS_DEVICE_NAME"
      and "deviceId event \<noteq> 0"
    using run_bound(1) [of "snd (handleShortcutsKeyEvent env event s)" ins] bS [OF that(1,2)]
      that(3) by simp
  moreover have "trustedPowerDeviceId (run ins (snd (handlePowerKeyEvent env event s))) =
      deviceId event"
    if "trustedPowerDeviceId s = 0"
      and "getDeviceName env event = Some TRUSTED_POWER_DEVICE_NAME"
      and "deviceId event \<noteq> 0"
    using run_bound(2) [of "snd (handlePowerKeyEvent env event s)" ins] bP [OF that(1,2)]
      that(3) by simp
  moreover have "handleShortcutsKeyEvent env event (run ins s) = (False, run ins s)"
    if "trustedShortcutsDeviceId s \<noteq> 0" and "deviceId event \<noteq> trustedShortcutsDeviceId s"
    using that run_bound(1) [of s ins]
    by (simp add: handleShortcutsKeyEvent_def shortcutsTrust_def)
  moreover have "handlePowerKeyEvent env event (run ins s) = (False, run ins s)"
    if "trustedPowerDeviceId s \<noteq> 0" and "deviceId event \<noteq> trustedPowerDeviceId s"
    using that run_bound(2) [of s ins]
    by (simp add: handlePowerKeyEvent_def powerTrust_def)
  moreover have "handleShortcutsKeyEvent env event s = (False, s)"
    if "trustedShortcutsDeviceId s = 0"
      and "getDeviceName env event \<noteq> Some TRUSTED_SHORTCUTS_DEVICE_NAME"
    using that by (simp add: handleShortcutsKeyEvent_def shortcutsTrust_def)
  moreover have "handlePowerKeyEvent env event s = (False, s)"
    if "trustedPowerDeviceId s = 0"
      and "getDeviceName env event \<noteq> Some TRUSTED_POWER_DEVICE_NAME"
    using that by (simp add: handlePowerKeyEvent_def powerTrust_def)
  ultimately show ?thesis
    using bS bP run_bound [of s ins] by blast
qed

text \<open>
  At a bound handler, the events of device 7, which reports the shortcuts hardware name,
  are rejected by both roles and the bindings stay 3 and 4; so do the bindings that the
  first events of the devices 3 and 4 make at a fresh handler.
\<close>

theorem trusted_device_binding_monotonic_witness:
  "trustedShortcutsDeviceId
     (run [KeyIn (exampleEnv True 0) (otherKey 7 250 ACTION_DOWN), Wait 600,
           KeyIn (exampleEnv True 700) (otherKey 7 250 ACTION_UP)] boundHandler) = 3 \<and>
   handleShortcutsKeyEvent (exampleEnv True 0) (otherKey 7 250 ACTION_DOWN) boundHandler =
     (False, boundHandler) \<and>
   trustedPowerDeviceId
     (run [KeyIn (exampleEnv True 0) (otherKey 7 250 ACTION_DOWN), Wait 600,
           KeyIn (exampleEnv True 700) (otherKey 7 250 ACTION_UP)] boundHandler) = 4 \<and>
   handlePowerKeyEvent (exampleEnv True 0) (otherKey 7 250 ACTION_DOWN) boundHandler =
     (False, boundHandler) \<and>
   handleShortcutsKeyEvent (exampleEnv True 0) (otherKey 9 250 ACTION_DOWN) exampleHandler =
     (False, exampleHandler) \<and>
   handlePowerKeyEvent (exampleEnv True 0) (otherKey 9 116 ACTION_DOWN) exampleHandler =
     (False, exampleHandler) \<and>
   trustedShortcutsDeviceId
     (snd (handleShortcutsKeyEvent (exampleEnv True 0) (shortcutsKey ACTION_DOWN) exampleHandler)) = 3 \<and>
   trustedPowerDeviceId
     (snd (handlePowerKeyEvent (exampleEnv True 0) (powerKey ACTION_DOWN) exampleHandler)) = 4 \<and>
   trustedShortcutsDeviceId
     (run [KeyIn (exampleEnv True 100) (otherKey 7 250 ACTION_DOWN), Wait 700]
        (snd (handleShortcutsKeyEvent (exampleEnv True 0) (shortcutsKey ACTION_DOWN)
           exampleHandler))) = 3 \<and>
   trustedPowerDeviceId
     (run [KeyIn (exampleEnv True 100) (otherKey 7 250 ACTION_DOWN), Wait 700]
        (snd (handlePowerKeyEvent (exampleEnv True 0) (powerKey ACTION_DOWN)
           exampleHandler))) = 4"
  using
    trusted_device_binding_monotonic [of boundHandler
      "[KeyIn (exampleEnv True 0) (otherKey 7 250 ACTION_DOWN), Wait 600,
        KeyIn (exampleEnv True 700) (otherKey 7 250 ACTION_UP)]"
      "otherKey 7 250 ACTION_DOWN" "exampleEnv True 0"]
    trusted_device_binding_monotonic [of boundHandler "[]"
      "otherKey 7 250 ACTION_DOWN" "exampleEnv True 0"]
    trusted_device_binding_monotonic [of exampleHandler "[]"
      "otherKey 9 250 ACTION_DOWN" "exampleEnv True 0"]
    trusted_device_binding_monotonic [of exampleHandler "[]"
      "otherKey 9 116 ACTION_DOWN" "exampleEnv True 0"]
    trusted_device_binding_monotonic [of exampleHandler
      "[KeyIn (exampleEnv True 100) (otherKey 7 250 ACTION_DOWN), Wait 700]"
      "shortcutsKey ACTION_DOWN" "exampleEnv True 0"]
    trusted_device_binding_monotonic [of exampleHandler
      "[KeyIn (exampleEnv True 100) (otherKey 7 250 ACTION_DOWN), Wait 700]"
      "powerKey ACTION_DOWN" "exampleEnv True 0"]
  by (simp add: boundHandler_eq exampleHandler_eq example_defs name_defs getDeviceName_def
      run_def)

text \<open>
  Claim C10. The name lookup and the binding come before the scan-code comparison: the
  first event of a device with the expected name binds the role even when its scan code
  is not the role's. The role's handler then returns false with the trusted device id as
  the only change, and, unless the device is the one bound to the other role,
  \<open>handleKeyEvent\<close> returns the event itself.
\<close>

theorem binding_precedes_scan_code_check:
  "(trustedShortcutsDeviceId s = 0 \<and>
    getDeviceName env event = Some TRUSTED_SHORTCUTS_DEVICE_NAME \<and>
    scanCode event \<noteq> shortcutsScanCode s \<longrightarrow>
      handleShortcutsKeyEvent env event s =
        (False, s\<lparr>trustedShortcutsDeviceId := deviceId event\<rparr>) \<and>
      ((trustedPowerDeviceId s = 0 \<or> trustedPowerDeviceId s \<noteq> deviceId event) \<longrightarrow>
        handleKeyEvent env event s =
          (Some event, s\<lparr>trustedShortcutsDeviceId := deviceId event\<rparr>))) \<and>
   (trustedPowerDeviceId s = 0 \<and>
    getDeviceName env event = Some TRUSTED_POWER_DEVICE_NAME \<and>
    scanCode event \<noteq> powerScanCode s \<longrightarrow>
      handlePowerKeyEvent env event s =
        (False, s\<lparr>trustedPowerDeviceId := deviceId event\<rparr>) \<and>
      ((trustedShortcutsDeviceId s = 0 \<or> trustedShortcutsDeviceId s \<noteq> deviceId event) \<longrightarrow>
        handleKeyEvent env event s =
          (Some event, s\<lparr>trustedPowerDeviceId := deviceId event\<rparr>)))"
  by (auto simp: handler_defs platform_defs name_defs)

theorem binding_precedes_scan_code_check_witness:
  "handleShortcutsKeyEvent (exampleEnv True 0) (otherKey 3 999 ACTION_DOWN) exampleHandler =
     (False, exampleHandler\<lparr>trustedShortcutsDeviceId := 3\<rparr>) \<and>
   handleKeyEvent (exampleEnv True 0) (otherKey 3 999 ACTION_DOWN) exampleHandler =
     (Some (otherKey 3 999 ACTION_DOWN), exampleHandler\<lparr>trustedShortcutsDeviceId := 3\<rparr>) \<and>
   handlePowerKeyEvent (exampleEnv True 0) (otherKey 4 999 ACTION_DOWN) exampleHandler =
     (False, exampleHandler\<lparr>trustedPowerDeviceId := 4\<rparr>) \<and>
   handleKeyEvent (exampleEnv True 0) (otherKey 4 999 ACTION_DOWN) exampleHandler =
     (Some (otherKey 4 999 ACTION_DOWN), exampleHandler\<lparr>trustedPowerDeviceId := 4\<rparr>)"
  using
    binding_precedes_scan_code_check [of exampleHandler "exampleEnv True 0"
      "otherKey 3 999 ACTION_DOWN"]
    binding_precedes_scan_code_check [of exampleHandler "exampleEnv True 0"
      "otherKey 4 999 ACTION_DOWN"]
  by (simp add: exampleHandler_eq example_defs name_defs getDeviceName_def)

subsection \<open>Events of untrusted devices\<close>

lemma untrusted_single:
  "untrusted env event s \<Longrightarrow> handleKeyEvent env event s = (Some event, s)"
  by (auto simp: untrusted_def handleKeyEvent_def handleShortcutsKeyEvent_def
      handlePowerKeyEvent_def shortcutsTrust_def powerTrust_def)

text \<open>
  Claim C9. A sequence of calls of \<open>handleKeyEvent\<close> with events of devices that are
  untrusted for both roles returns every event itself and leaves the whole state as it
  was: neither pressed flag changes, nothing is injected, no screenshot is requested.
\<close>

theorem untrusted_pass_through:
  assumes "\<forall>(env, event) \<in> set evs. untrusted env event s"
  shows "handleAll evs s = (map (\<lambda>(env, event). Some event) evs, s)"
  using assms
proof (induction evs)
  case Nil
  show ?case by simp
next
  case (Cons p evs)
  obtain env event where p: "p = (env, event)" by (cases p)
  from Cons.prems p have "untrusted env event s" by simp
  then have "handleKeyEvent env event s = (Some event, s)" by (rule untrusted_single)
  moreover from Cons have "handleAll evs s = (map (\<lambda>(env, event). Some event) evs, s)"
    by simp
  ultimately show ?case using p by simp
qed

theorem untrusted_pass_through_witness:
  "handleAll [(exampleEnv True 0, otherKey 9 250 ACTION_DOWN),
        (exampleEnv True 40, otherKey 9 116 ACTION_UP)]
      exampleHandler =
     ([Some (otherKey 9 250 ACTION_DOWN),
       Some (otherKey 9 116 ACTION_UP)], exampleHandler)"
proof -
  have h: "\<forall>(env, event) \<in> set [(exampleEnv True 0, otherKey 9 250 ACTION_DOWN),
        (exampleEnv True 40, otherKey 9 116 ACTION_UP)].
      untrusted env event exampleHandler"
    by (simp add: untrusted_def exampleHandler_eq example_defs name_defs getDeviceName_def)
  show ?thesis using untrusted_pass_through [OF h] by simp
qed

subsection \<open>Interactivity gating\<close>

text \<open>
  Claim C8. An accepted down-edge handled while the device is not interactive is consumed
  and injects what a down-edge injects (the role's genuine down, or the cancelled up of
  the peer when the peer is tracked as pressed), and it leaves the role's pressed flag
  as it was, so a flag that was false remains false. Handled while interactive it sets
  the flag. Nothing else sets a flag: a call of \<open>handleKeyEvent\<close> after which a flag is
  true that was false before handled an accepted down-edge of that role while
  interactive, and the deferred action only clears flags.
\<close>

theorem interactivity_gating:
  assumes "handleKeyEvent env event s = (r, s')"
  shows
    "(shortcutsAccepts env event s \<and> action event = ACTION_DOWN \<and> \<not> interactive env \<longrightarrow>
        r = None \<and> shortcutsKeyPressed s' = shortcutsKeyPressed s \<and>
        out s' = out s @
          [if powerKeyPressed s then InjectKey (powerKeyCode s) ACTION_UP FLAG_CANCELED
           else InjectKey (keyCode event) ACTION_DOWN 0]) \<and>
     (powerAccepts env event s \<and> action event = ACTION_DOWN \<and> \<not> interactive env \<longrightarrow>
        r = None \<and> powerKeyPressed s' = powerKeyPressed s \<and>
        out s' = out s @
          [if shortcutsKeyPressed s then InjectKey (shortcutsKeyCode s) ACTION_UP FLAG_CANCELED
           else InjectKey (keyCode event) ACTION_DOWN 0]) \<and>
     (shortcutsAccepts env event s \<and> action event = ACTION_DOWN \<and> interactive env \<longrightarrow>
        shortcutsKeyPressed s') \<and>
     (powerAccepts env event s \<and> action event = ACTION_DOWN \<and> interactive env \<longrightarrow>
        powerKeyPressed s') \<and>
     (shortcutsKeyPressed s' \<and> \<not> shortcutsKeyPressed s \<longrightarrow>
        shortcutsAccepts env event s \<and> action event = ACTION_DOWN \<and> interactive env) \<and>
     (powerKeyPressed s' \<and> \<not> powerKeyPressed s \<longrightarrow>
        powerAccepts env event s \<and> action event = ACTION_DOWN \<and> interactive env) \<and>
     (shortcutsKeyPressed (triggerPartialScreenshot s) \<longrightarrow> shortcutsKeyPressed s) \<and>
     (powerKeyPressed (triggerPartialScreenshot s) \<longrightarrow> powerKeyPressed s)"
proof -
  have a: "shortcutsAccepts env event s \<and> action event = ACTION_DOWN \<and> \<not> interactive env \<longrightarrow>
        r = None \<and> shortcutsKeyPressed s' = shortcutsKeyPressed s \<and>
        out s' = out s @
          [if powerKeyPressed s then InjectKey (powerKeyCode s) ACTION_UP FLAG_CANCELED
           else InjectKey (keyCode event) ACTION_DOWN 0]"
    using shortcuts_down(1,2,3) [OF _ _ assms] by simp
  have b: "powerAccepts env event s \<and> action event = ACTION_DOWN \<and> \<not> interactive env \<longrightarrow>
        r = None \<and> powerKeyPressed s' = powerKeyPressed s \<and>
        out s' = out s @
          [if shortcutsKeyPressed s then InjectKey (shortcutsKeyCode s) ACTION_UP FLAG_CANCELED
           else InjectKey (keyCode event) ACTION_DOWN 0]"
    using power_down(1,2,3) [OF _ _ assms] by simp
  have c: "shortcutsAccepts env event s \<and> action event = ACTION_DOWN \<and> interactive env \<longrightarrow>
        shortcutsKeyPressed s'"
    using shortcuts_down(3) [OF _ _ assms] by simp
  have d: "powerAccepts env event s \<and> action event = ACTION_DOWN \<and> interactive env \<longrightarrow>
        powerKeyPressed s'"
    using power_down(3) [OF _ _ assms] by simp
  from a b c d flag_set_only_by_down [OF assms] trigger_clears_only [of s]
  show ?thesis by blast
qed

theorem interactivity_gating_witness:
  "fst (handleKeyEvent (exampleEnv False 0) (shortcutsKey ACTION_DOWN) exampleHandler) = None \<and>
   \<not> shortcutsKeyPressed
       (snd (handleKeyEvent (exampleEnv False 0) (shortcutsKey ACTION_DOWN) exampleHandler)) \<and>
   out (snd (handleKeyEvent (exampleEnv False 0) (shortcutsKey ACTION_DOWN) exampleHandler)) =
     [InjectKey 300 ACTION_DOWN 0] \<and>
   fst (handleKeyEvent (exampleEnv False 0) (powerKey ACTION_DOWN) exampleHandler) = None \<and>
   \<not> powerKeyPressed
       (snd (handleKeyEvent (exampleEnv False 0) (powerKey ACTION_DOWN) exampleHandler)) \<and>
   out (snd (handleKeyEvent (exampleEnv False 0) (powerKey ACTION_DOWN) exampleHandler)) =
     [InjectKey 26 ACTION_DOWN 0] \<and>
   shortcutsKeyPressed
     (snd (handleKeyEvent (exampleEnv True 0) (shortcutsKey ACTION_DOWN) exampleHandler)) \<and>
   powerKeyPressed
     (snd (handleKeyEvent (exampleEnv True 0) (powerKey ACTION_DOWN) exampleHandler))"
proof -
  have c: "handleKeyEvent env event exampleHandler =
      (fst (handleKeyEvent env event exampleHandler),
       snd (handleKeyEvent env event exampleHandler))" for env event
    by simp
  have k: "action (shortcutsKey ACTION_DOWN) = ACTION_DOWN"
    "action (powerKey ACTION_DOWN) = ACTION_DOWN"
    "keyCode (shortcutsKey ACTION_DOWN) = 300" "keyCode (powerKey ACTION_DOWN) = 26"
    by (simp_all add: shortcutsKey_def powerKey_def)
  have e: "\<not> interactive (exampleEnv False 0)" "interactive (exampleEnv True 0)"
    by (simp_all add: exampleEnv_def)
  have h: "\<not> shortcutsKeyPressed exampleHandler" "\<not> powerKeyPressed exampleHandler"
    "out exampleHandler = []"
    by (simp_all add: exampleHandler_eq)
  from interactivity_gating [OF c [of "exampleEnv False 0" "shortcutsKey ACTION_DOWN"]]
    interactivity_gating [OF c [of "exampleEnv False 0" "powerKey ACTION_DOWN"]]
    interactivity_gating [OF c [of "exampleEnv True 0" "shortcutsKey ACTION_DOWN"]]
    interactivity_gating [OF c [of "exampleEnv True 0" "powerKey ACTION_DOWN"]]
  show ?thesis
    using example_accepts [of False 0 ACTION_DOWN] example_accepts [of True 0 ACTION_DOWN] k e h
    by simp
qed

subsection \<open>Releases\<close>

text \<open>
  Claim C3 says that an accepted up-edge of a role with no earlier down-edge of that role
  requests no screenshot. The up-edge branch does not look at the role's own pressed
  flag, only at the peer's: after a Power down-edge, a Shortcuts up-edge that no
  Shortcuts down-edge precedes requests a full-screen screenshot.
\<close>

theorem release_without_press_counterexample:
  "shortcutsAccepts (exampleEnv True 100) (shortcutsKey ACTION_UP)
     (run [KeyIn (exampleEnv True 0) (powerKey ACTION_DOWN)] exampleHandler) \<and>
   out (run [KeyIn (exampleEnv True 0) (powerKey ACTION_DOWN)] exampleHandler) =
     [InjectKey 26 ACTION_DOWN 0] \<and>
   out (run [KeyIn (exampleEnv True 0) (powerKey ACTION_DOWN),
             KeyIn (exampleEnv True 100) (shortcutsKey ACTION_UP)] exampleHandler) =
     [InjectKey 26 ACTION_DOWN 0, TakeScreenshot False]"
  by (simp add: run_defs shortcutsAccepts_def)

text \<open>
  Claim C3, as the code has it. An accepted up-edge of a role, with or without an earlier
  down-edge of that role, issues exactly one request: the role's own genuine up-injection
  when the peer's pressed flag is false, a full-screen screenshot when it is true. It
  never requests a partial screenshot and never injects for the peer; afterwards both
  pressed flags are false and no post is pending.
\<close>

theorem release_effects:
  assumes "handleKeyEvent env event s = (r, s')" and "action event = ACTION_UP"
  shows
    "(shortcutsAccepts env event s \<longrightarrow>
        r = None \<and>
        out s' = out s @
          [if powerKeyPressed s then TakeScreenshot False
           else InjectKey (keyCode event) ACTION_UP 0] \<and>
        \<not> shortcutsKeyPressed s' \<and> \<not> powerKeyPressed s' \<and> queue s' = []) \<and>
     (powerAccepts env event s \<longrightarrow>
        r = None \<and>
        out s' = out s @
          [if shortcutsKeyPressed s then TakeScreenshot False
           else InjectKey (keyCode event) ACTION_UP 0] \<and>
        \<not> shortcutsKeyPressed s' \<and> \<not> powerKeyPressed s' \<and> queue s' = [])"
  using shortcuts_up(1-5) [OF _ assms(2,1)] power_up(1-5) [OF _ assms(2,1)]
  by simp

theorem release_effects_witness:
  "out (snd (handleKeyEvent (exampleEnv True 100) (shortcutsKey ACTION_UP)
       (run [KeyIn (exampleEnv True 0) (powerKey ACTION_DOWN)] exampleHandler))) =
     [InjectKey 26 ACTION_DOWN 0, TakeScreenshot False] \<and>
   out (snd (handleKeyEvent (exampleEnv True 100) (shortcutsKey ACTION_UP) exampleHandler)) =
     [InjectKey 300 ACTION_UP 0] \<and>
   out (snd (handleKeyEvent (exampleEnv True 100) (powerKey ACTION_UP) exampleHandler)) =
     [InjectKey 26 ACTION_UP 0] \<and>
   queue (snd (handleKeyEvent (exampleEnv True 100) (powerKey ACTION_UP) exampleHandler)) = []"
proof -
  let ?p = "run [KeyIn (exampleEnv True 0) (powerKey ACTION_DOWN)] exampleHandler"
  have p: "shortcutsAccepts (exampleEnv True 100) (shortcutsKey ACTION_UP) ?p"
    "powerKeyPressed ?p" "out ?p = [InjectKey 26 ACTION_DOWN 0]"
    by (simp_all add: run_defs shortcutsAccepts_def)
  have h: "\<not> shortcutsKeyPressed exampleHandler" "\<not> powerKeyPressed exampleHandler"
    "out exampleHandler = []"
    by (simp_all add: exampleHandler_eq)
  note T1 = release_effects [OF pair_collapse [of "exampleEnv True 100" "shortcutsKey ACTION_UP" ?p]
      exampleKey_sel(1)]
  note T2 = release_effects [OF pair_collapse [of "exampleEnv True 100" "shortcutsKey ACTION_UP"
        exampleHandler] exampleKey_sel(1)]
  note T3 = release_effects [OF pair_collapse [of "exampleEnv True 100" "powerKey ACTION_UP"
        exampleHandler] exampleKey_sel(3)]
  from T1 p(1) have "out (snd (handleKeyEvent (exampleEnv True 100) (shortcutsKey ACTION_UP) ?p)) =
      out ?p @ [if powerKeyPressed ?p then TakeScreenshot False
                else InjectKey (keyCode (shortcutsKey ACTION_UP)) ACTION_UP 0]"
    by blast
  then have 1: "out (snd (handleKeyEvent (exampleEnv True 100) (shortcutsKey ACTION_UP) ?p)) =
      [InjectKey 26 ACTION_DOWN 0, TakeScreenshot False]"
    by (simp add: p)
  from T2 example_accepts(1) [of True 100 ACTION_UP]
  have "out (snd (handleKeyEvent (exampleEnv True 100) (shortcutsKey ACTION_UP) exampleHandler)) =
      out exampleHandler @ [if powerKeyPressed exampleHandler then TakeScreenshot False
                else InjectKey (keyCode (shortcutsKey ACTION_UP)) ACTION_UP 0]"
    by blast
  then have 2: "out (snd (handleKeyEvent (exampleEnv True 100) (shortcutsKey ACTION_UP)
      exampleHandler)) = [InjectKey 300 ACTION_UP 0]"
    by (simp add: h exampleKey_sel)
  from T3 example_accepts(2) [of True 100 ACTION_UP]
  have "out (snd (handleKeyEvent (exampleEnv True 100) (powerKey ACTION_UP) exampleHandler)) =
      out exampleHandler @ [if shortcutsKeyPressed exampleHandler then TakeScreenshot False
                else InjectKey (keyCode (powerKey ACTION_UP)) ACTION_UP 0]"
    and 4: "queue (snd (handleKeyEvent (exampleEnv True 100) (powerKey ACTION_UP)
      exampleHandler)) = []"
    by blast+
  then have 3: "out (snd (handleKeyEvent (exampleEnv True 100) (powerKey ACTION_UP)
      exampleHandler)) = [InjectKey 26 ACTION_UP 0]"
    by (simp add: h exampleKey_sel)
  from 1 2 3 4 show ?thesis by simp
qed

subsection \<open>Presses in the injected stream\<close>

text \<open>
  Claim C4 says that the injected stream never holds both learned key codes down at
  once. The handler decides by the peer's pressed flag, and the flag does not follow
  the stream: a down-edge handled while the device is not interactive injects a genuine
  down and leaves the flag false, and an up-edge of one role clears the flag of the other
  without injecting anything for it. In both runs below each key code's last injected
  event is a genuine down.
\<close>

theorem genuine_presses_counterexample:
  "shortcutsKeyCode (run screenOffPresses exampleHandler) = 300 \<and>
   powerKeyCode (run screenOffPresses exampleHandler) = 26 \<and>
   heldDown 300 (out (run screenOffPresses exampleHandler)) \<and>
   heldDown 26 (out (run screenOffPresses exampleHandler)) \<and>
   shortcutsKeyCode (run interleavedPresses exampleHandler) = 300 \<and>
   powerKeyCode (run interleavedPresses exampleHandler) = 26 \<and>
   heldDown 300 (out (run interleavedPresses exampleHandler)) \<and>
   heldDown 26 (out (run interleavedPresses exampleHandler))"
  by (simp add: run_defs heldDown_def screenOffPresses_def interleavedPresses_def)

text \<open>
  Claim C4, as the code has it. An accepted down-edge of a role injects exactly one
  event: the cancelled up of the peer's learned key code when the peer's pressed flag is
  true, and the role's own genuine down when it is false. Hence, when the peer's flag is
  true whenever the peer's key code is held down in the stream, and the event's key code
  is not the peer's, the two learned key codes are not both held down after the call.
\<close>

theorem press_injection:
  assumes "handleKeyEvent env event s = (r, s')" and "action event = ACTION_DOWN"
  shows
    "(shortcutsAccepts env event s \<longrightarrow>
        out s' = out s @
          [if powerKeyPressed s then InjectKey (powerKeyCode s) ACTION_UP FLAG_CANCELED
           else InjectKey (keyCode event) ACTION_DOWN 0] \<and>
        ((heldDown (powerKeyCode s) (out s) \<longrightarrow> powerKeyPressed s) \<and>
         keyCode event \<noteq> powerKeyCode s \<longrightarrow>
           \<not> (heldDown (shortcutsKeyCode s') (out s') \<and> heldDown (powerKeyCode s') (out s')))) \<and>
     (powerAccepts env event s \<longrightarrow>
        out s' = out s @
          [if shortcutsKeyPressed s then InjectKey (shortcutsKeyCode s) ACTION_UP FLAG_CANCELED
           else InjectKey (keyCode event) ACTION_DOWN 0] \<and>
        ((heldDown (shortcutsKeyCode s) (out s) \<longrightarrow> shortcutsKeyPressed s) \<and>
         keyCode event \<noteq> shortcutsKeyCode s \<longrightarrow>
           \<not> (heldDown (shortcutsKeyCode s') (out s') \<and> heldDown (powerKeyCode s') (out s'))))"
proof -
  have ne: "ACTION_UP \<noteq> ACTION_DOWN" by (simp add: ACTION_DOWN_def ACTION_UP_def)
  have S: "out s' = out s @
          [if powerKeyPressed s then InjectKey (powerKeyCode s) ACTION_UP FLAG_CANCELED
           else InjectKey (keyCode event) ACTION_DOWN 0] \<and>
        ((heldDown (powerKeyCode s) (out s) \<longrightarrow> powerKeyPressed s) \<and>
         keyCode event \<noteq> powerKeyCode s \<longrightarrow>
           \<not> (heldDown (shortcutsKeyCode s') (out s') \<and> heldDown (powerKeyCode s') (out s')))"
    if a: "shortcutsAccepts env event s"
    using shortcuts_down(2,6,7) [OF a assms(2,1)] ne by (auto simp: heldDown_snoc)
  have P: "out s' = out s @
          [if shortcutsKeyPressed s then InjectKey (shortcutsKeyCode s) ACTION_UP FLAG_CANCELED
           else InjectKey (keyCode event) ACTION_DOWN 0] \<and>
        ((heldDown (shortcutsKeyCode s) (out s) \<longrightarrow> shortcutsKeyPressed s) \<and>
         keyCode event \<noteq> shortcutsKeyCode s \<longrightarrow>
           \<not> (heldDown (shortcutsKeyCode s') (out s') \<and> heldDown (powerKeyCode s') (out s')))"
    if a: "powerAccepts env event s"
    using power_down(2,6,7) [OF a assms(2,1)] ne by (auto simp: heldDown_snoc)
  from S P show ?thesis by blast
qed

theorem press_injection_witness:
  "out (snd (handleKeyEvent (exampleEnv True 0) (shortcutsKey ACTION_DOWN) exampleHandler)) =
     [InjectKey 300 ACTION_DOWN 0] \<and>
   out (snd (handleKeyEvent (exampleEnv True 100) (powerKey ACTION_DOWN)
       (run [KeyIn (exampleEnv True 0) (shortcutsKey ACTION_DOWN)] exampleHandler))) =
     [InjectKey 300 ACTION_DOWN 0, InjectKey 300 ACTION_UP FLAG_CANCELED] \<and>
   \<not> (heldDown
        (shortcutsKeyCode (snd (handleKeyEvent (exampleEnv True 100) (powerKey ACTION_DOWN)
           (run [KeyIn (exampleEnv True 0) (shortcutsKey ACTION_DOWN)] exampleHandler))))
        (out (snd (handleKeyEvent (exampleEnv True 100) (powerKey ACTION_DOWN)
           (run [KeyIn (exampleEnv True 0) (shortcutsKey ACTION_DOWN)] exampleHandler)))) \<and>
      heldDown
        (powerKeyCode (snd (handleKeyEvent (exampleEnv True 100) (powerKey ACTION_DOWN)
           (run [KeyIn (exampleEnv True 0) (shortcutsKey ACTION_DOWN)] exampleHandler))))
        (out (snd (handleKeyEvent (exampleEnv True 100) (powerKey ACTION_DOWN)
           (run [KeyIn (exampleEnv True 0) (shortcutsKey ACTION_DOWN)] exampleHandler)))))"
proof -
  let ?p = "run [KeyIn (exampleEnv True 0) (shortcutsKey ACTION_DOWN)] exampleHandler"
  have p: "powerAccepts (exampleEnv True 100) (powerKey ACTION_DOWN) ?p"
    "shortcutsKeyPressed ?p" "out ?p = [InjectKey 300 ACTION_DOWN 0]"
    "shortcutsKeyCode ?p = 300"
    by (simp_all add: run_defs shortcutsAccepts_def powerAccepts_def)
  have h: "\<not> powerKeyPressed exampleHandler" "out exampleHandler = []"
    by (simp_all add: exampleHandler_eq)
  note T1 = press_injection [OF pair_collapse [of "exampleEnv True 0" "shortcutsKey ACTION_DOWN"
        exampleHandler] exampleKey_sel(1)]
  note T2 = press_injection [OF pair_collapse [of "exampleEnv True 100" "powerKey ACTION_DOWN" ?p]
      exampleKey_sel(3)]
  from T1 example_accepts(1) [of True 0 ACTION_DOWN]
  have "out (snd (handleKeyEvent (exampleEnv True 0) (shortcutsKey ACTION_DOWN) exampleHandler)) =
      out exampleHandler @
        [if powerKeyPressed exampleHandler
         then InjectKey (powerKeyCode exampleHandler) ACTION_UP FLAG_CANCELED
         else InjectKey (keyCode (shortcutsKey ACTION_DOWN)) ACTION_DOWN 0]"
    by blast
  then have 1: "out (snd (handleKeyEvent (exampleEnv True 0) (shortcutsKey ACTION_DOWN)
      exampleHandler)) = [InjectKey 300 ACTION_DOWN 0]"
    by (simp add: h exampleKey_sel)
  have pre: "(heldDown (shortcutsKeyCode ?p) (out ?p) \<longrightarrow> shortcutsKeyPressed ?p) \<and>
      keyCode (powerKey ACTION_DOWN) \<noteq> shortcutsKeyCode ?p"
    by (simp add: p exampleKey_sel)
  from T2 p(1) pre
  have "out (snd (handleKeyEvent (exampleEnv True 100) (powerKey ACTION_DOWN) ?p)) =
      out ?p @
        [if shortcutsKeyPressed ?p
         then InjectKey (shortcutsKeyCode ?p) ACTION_UP FLAG_CANCELED
         else InjectKey (keyCode (powerKey ACTION_DOWN)) ACTION_DOWN 0]"
    and 3: "\<not> (heldDown
        (shortcutsKeyCode (snd (handleKeyEvent (exampleEnv True 100) (powerKey ACTION_DOWN) ?p)))
        (out (snd (handleKeyEvent (exampleEnv True 100) (powerKey ACTION_DOWN) ?p))) \<and>
      heldDown
        (powerKeyCode (snd (handleKeyEvent (exampleEnv True 100) (powerKey ACTION_DOWN) ?p)))
        (out (snd (handleKeyEvent (exampleEnv True 100) (powerKey ACTION_DOWN) ?p))))"
    by blast+
  then have 2: "out (snd (handleKeyEvent (exampleEnv True 100) (powerKey ACTION_DOWN) ?p)) =
      [InjectKey 300 ACTION_DOWN 0, InjectKey 300 ACTION_UP FLAG_CANCELED]"
    by (simp add: p)
  from 1 2 3 show ?thesis by blast
qed

subsection \<open>Pending posts of the deferred action\<close>

text \<open>
  Claim C1 says that arming cancels a pending post, so that at most one is ever pending.
  \<open>postDelayed\<close> removes nothing and the down-edge branches do not call
  \<open>removeCallbacks\<close>: a second Power down-edge while Shortcuts is tracked as pressed
  leaves two posts pending.
\<close>

theorem pending_timers_counterexample:
  "queue (run [KeyIn (exampleEnv True 0) (shortcutsKey ACTION_DOWN),
               KeyIn (exampleEnv True 1) (powerKey ACTION_DOWN),
               KeyIn (exampleEnv True 2) (powerKey ACTION_DOWN)] exampleHandler) = [501, 502]"
  by (simp add: run_defs)

lemma queue_cases:
  assumes "handleKeyEvent env event s = (r, s')"
  shows "(action event = ACTION_DOWN \<and>
          (shortcutsAccepts env event s \<and> powerKeyPressed s \<or>
           powerAccepts env event s \<and> shortcutsKeyPressed s) \<longrightarrow>
            queue s' = enqueueMessage (uptimeMillis env +
              (if longPressTimeout s < 0 then 0 else longPressTimeout s)) (queue s)) \<and>
         (action event = ACTION_UP \<and>
          (shortcutsAccepts env event s \<or> powerAccepts env event s) \<longrightarrow> queue s' = []) \<and>
         (\<not> (action event = ACTION_DOWN \<and>
          (shortcutsAccepts env event s \<and> powerKeyPressed s \<or>
           powerAccepts env event s \<and> shortcutsKeyPressed s)) \<and>
          \<not> (action event = ACTION_UP \<and>
          (shortcutsAccepts env event s \<or> powerAccepts env event s)) \<longrightarrow>
            queue s' = queue s)"
proof -
  have ne: "ACTION_UP \<noteq> ACTION_DOWN" by (simp add: ACTION_DOWN_def ACTION_UP_def)
  consider (S) "shortcutsAccepts env event s" | (P) "powerAccepts env event s"
    | (N) "\<not> shortcutsAccepts env event s" "\<not> powerAccepts env event s" by blast
  then show ?thesis
  proof cases
    case S
    then have nP: "\<not> powerAccepts env event s" using accepts_exclusive by blast
    consider (D) "action event = ACTION_DOWN" | (U) "action event = ACTION_UP"
      | (O) "action event \<noteq> ACTION_DOWN" "action event \<noteq> ACTION_UP" by blast
    then show ?thesis
    proof cases
      case D
      from shortcuts_down(5) [OF S D assms] S nP D ne show ?thesis by simp
    next
      case U
      from shortcuts_up(5) [OF S U assms] S U ne show ?thesis by simp
    next
      case O
      from other_action(4) [OF O assms] O show ?thesis by simp
    qed
  next
    case P
    then have nS: "\<not> shortcutsAccepts env event s" using accepts_exclusive by blast
    consider (D) "action event = ACTION_DOWN" | (U) "action event = ACTION_UP"
      | (O) "action event \<noteq> ACTION_DOWN" "action event \<noteq> ACTION_UP" by blast
    then show ?thesis
    proof cases
      case D
      from power_down(5) [OF P D assms] P nS D ne show ?thesis by simp
    next
      case U
      from power_up(5) [OF P U assms] P U ne show ?thesis by simp
    next
      case O
      from other_action(4) [OF O assms] O show ?thesis by simp
    qed
  next
    case N
    from not_accepted(5) [OF N assms] N show ?thesis by simp
  qed
qed

lemma looper_tracked:
  assumes "(shortcutsKeyPressed s \<longrightarrow> dS) \<and> (powerKeyPressed s \<longrightarrow> dP) \<and>
      length (queue s) \<le> (if dS \<and> dP then 1 else 0)"
  shows "(shortcutsKeyPressed (looper t s) \<longrightarrow> dS) \<and> (powerKeyPressed (looper t s) \<longrightarrow> dP) \<and>
      length (queue (looper t s)) \<le> (if dS \<and> dP then 1 else 0)"
proof -
  have "length (queue (looper t s)) \<le> length (queue s)" by (simp add: looper_queue)
  with assms looper_flags [of t s] show ?thesis by auto
qed

lemma alternating_run:
  assumes "(shortcutsKeyPressed s \<longrightarrow> dS) \<and> (powerKeyPressed s \<longrightarrow> dP) \<and>
      length (queue s) \<le> (if dS \<and> dP then 1 else 0)"
    and "alternating dS dP ins s"
  shows "length (queue (run ins s)) \<le> 1"
  using assms
proof (induction ins arbitrary: dS dP s)
  case Nil
  then show ?case by (simp add: run_def split: if_splits)
next
  case (Cons i ins)
  have r: "run (i # ins) s = run ins (step i s)" by (simp add: run_def)
  show ?case
  proof (cases i)
    case (Wait t)
    from Cons.prems(2) Wait have a: "alternating dS dP ins (step i s)" by simp
    from looper_tracked [OF Cons.prems(1), of t] Wait
    have "(shortcutsKeyPressed (step i s) \<longrightarrow> dS) \<and> (powerKeyPressed (step i s) \<longrightarrow> dP) \<and>
      length (queue (step i s)) \<le> (if dS \<and> dP then 1 else 0)" by simp
    from Cons.IH [OF this a] show ?thesis by (simp add: r)
  next
    case (KeyIn env event)
    define s0 where "s0 = looper (uptimeMillis env) s"
    define s1 where "s1 = step i s"
    have h: "handleKeyEvent env event s0 = (fst (handleKeyEvent env event s0), s1)"
      by (simp add: s1_def s0_def KeyIn)
    note t0 = looper_tracked [OF Cons.prems(1), of "uptimeMillis env", folded s0_def]
    have ne: "ACTION_UP \<noteq> ACTION_DOWN" by (simp add: ACTION_DOWN_def ACTION_UP_def)
    let ?SD = "action event = ACTION_DOWN \<and> shortcutsAccepts env event s0"
    let ?PD = "action event = ACTION_DOWN \<and> powerAccepts env event s0"
    let ?U = "action event = ACTION_UP \<and>
              (shortcutsAccepts env event s0 \<or> powerAccepts env event s0)"
    consider (SD) ?SD | (PD) "\<not> ?SD" ?PD | (U) "\<not> ?SD" "\<not> ?PD" ?U
      | (N) "\<not> ?SD" "\<not> ?PD" "\<not> ?U" by blast
    then have "\<exists>dS' dP'. ((shortcutsKeyPressed s1 \<longrightarrow> dS') \<and> (powerKeyPressed s1 \<longrightarrow> dP') \<and>
        length (queue s1) \<le> (if dS' \<and> dP' then 1 else 0)) \<and> alternating dS' dP' ins s1"
    proof cases
      case SD
      with Cons.prems(2) KeyIn have a: "\<not> dS" "alternating True dP ins s1"
        by (simp_all add: s0_def s1_def Let_def)
      from SD have acc: "shortcutsAccepts env event s0" and d: "action event = ACTION_DOWN"
        by simp_all
      from shortcuts_down(3,4,5) [OF acc d h] t0 a(1)
      have "(shortcutsKeyPressed s1 \<longrightarrow> True) \<and> (powerKeyPressed s1 \<longrightarrow> dP) \<and>
        length (queue s1) \<le> (if True \<and> dP then 1 else 0)"
        by (auto simp: length_enqueueMessage split: if_splits)
      with a(2) show ?thesis by blast
    next
      case PD
      with Cons.prems(2) KeyIn have a: "\<not> dP" "alternating dS True ins s1"
        by (simp_all add: s0_def s1_def Let_def)
      from PD have acc: "powerAccepts env event s0" and d: "action event = ACTION_DOWN"
        by simp_all
      from power_down(3,4,5) [OF acc d h] t0 a(1)
      have "(shortcutsKeyPressed s1 \<longrightarrow> dS) \<and> (powerKeyPressed s1 \<longrightarrow> True) \<and>
        length (queue s1) \<le> (if dS \<and> True then 1 else 0)"
        by (auto simp: length_enqueueMessage split: if_splits)
      with a(2) show ?thesis by blast
    next
      case U
      with Cons.prems(2) KeyIn have a: "alternating False False ins s1"
        by (simp add: s0_def s1_def Let_def)
      from U have u: "action event = ACTION_UP" by simp
      from U consider "shortcutsAccepts env event s0" | "powerAccepts env event s0" by blast
      then have "\<not> shortcutsKeyPressed s1 \<and> \<not> powerKeyPressed s1 \<and> queue s1 = []"
      proof cases
        case 1
        from shortcuts_up(3,4,5) [OF 1 u h] show ?thesis by simp
      next
        case 2
        from power_up(3,4,5) [OF 2 u h] show ?thesis by simp
      qed
      then have "(shortcutsKeyPressed s1 \<longrightarrow> False) \<and> (powerKeyPressed s1 \<longrightarrow> False) \<and>
        length (queue s1) \<le> (if False \<and> False then 1 else 0)" by simp
      with a show ?thesis by blast
    next
      case N
      with Cons.prems(2) KeyIn have a: "alternating dS dP ins s1"
        by (simp add: s0_def s1_def Let_def)
      from N queue_cases [OF h] have q: "queue s1 = queue s0" by blast
      from N flag_set_only_by_down [OF h]
      have f: "shortcutsKeyPressed s1 \<longrightarrow> shortcutsKeyPressed s0"
        "powerKeyPressed s1 \<longrightarrow> powerKeyPressed s0" by blast+
      from t0 q f have "(shortcutsKeyPressed s1 \<longrightarrow> dS) \<and> (powerKeyPressed s1 \<longrightarrow> dP) \<and>
        length (queue s1) \<le> (if dS \<and> dP then 1 else 0)" by auto
      with a show ?thesis by blast
    qed
    then obtain dS' dP' where
      "(shortcutsKeyPressed s1 \<longrightarrow> dS') \<and> (powerKeyPressed s1 \<longrightarrow> dP') \<and>
        length (queue s1) \<le> (if dS' \<and> dP' then 1 else 0)" "alternating dS' dP' ins s1"
      by blast
    from Cons.IH [OF this] show ?thesis by (simp add: r s1_def)
  qed
qed

text \<open>
  Claim C1, as the code has it. An arming down-edge adds one post to those pending and
  removes none; an accepted up-edge removes every pending post. Starting from an idle
  handler, at most one post is pending after every run in which no role gets a second
  accepted down-edge unless an accepted up-edge came in between.
\<close>

theorem pending_timers:
  assumes "handleKeyEvent env event s = (r, s')"
  shows
    "(action event = ACTION_DOWN \<and>
      (shortcutsAccepts env event s \<and> powerKeyPressed s \<or>
       powerAccepts env event s \<and> shortcutsKeyPressed s) \<longrightarrow>
        queue s' = enqueueMessage (uptimeMillis env +
          (if longPressTimeout s < 0 then 0 else longPressTimeout s)) (queue s) \<and>
        length (queue s') = length (queue s) + 1) \<and>
     (action event = ACTION_UP \<and>
      (shortcutsAccepts env event s \<or> powerAccepts env event s) \<longrightarrow> queue s' = []) \<and>
     (idle x \<and> alternating False False ins x \<longrightarrow> length (queue (run ins x)) \<le> 1)"
proof -
  have "length (queue (run ins x)) \<le> 1" if "idle x" and "alternating False False ins x"
    using alternating_run [of x False False ins] that by (simp add: idle_def)
  with queue_cases [OF assms] show ?thesis
    by (simp add: length_enqueueMessage)
qed

theorem pending_timers_witness:
  "queue (snd (handleKeyEvent (exampleEnv True 100) (powerKey ACTION_DOWN)
       (run [KeyIn (exampleEnv True 0) (shortcutsKey ACTION_DOWN)] exampleHandler))) = [600] \<and>
   queue (snd (handleKeyEvent (exampleEnv True 300) (powerKey ACTION_UP)
       (run [KeyIn (exampleEnv True 0) (shortcutsKey ACTION_DOWN),
             KeyIn (exampleEnv True 100) (powerKey ACTION_DOWN)] exampleHandler))) = [] \<and>
   length (queue (run interleavedPresses exampleHandler)) \<le> 1"
proof -
  have c: "handleKeyEvent env event s =
      (fst (handleKeyEvent env event s), snd (handleKeyEvent env event s))" for env event s
    by simp
  have a1: "action (powerKey ACTION_DOWN) = ACTION_DOWN \<and>
      (shortcutsAccepts (exampleEnv True 100) (powerKey ACTION_DOWN)
         (run [KeyIn (exampleEnv True 0) (shortcutsKey ACTION_DOWN)] exampleHandler) \<and>
       powerKeyPressed (run [KeyIn (exampleEnv True 0) (shortcutsKey ACTION_DOWN)] exampleHandler) \<or>
       powerAccepts (exampleEnv True 100) (powerKey ACTION_DOWN)
         (run [KeyIn (exampleEnv True 0) (shortcutsKey ACTION_DOWN)] exampleHandler) \<and>
       shortcutsKeyPressed (run [KeyIn (exampleEnv True 0) (shortcutsKey ACTION_DOWN)] exampleHandler))"
    by (simp add: run_defs shortcutsAccepts_def powerAccepts_def)
  have q1: "queue (run [KeyIn (exampleEnv True 0) (shortcutsKey ACTION_DOWN)] exampleHandler) = []"
    "longPressTimeout (run [KeyIn (exampleEnv True 0) (shortcutsKey ACTION_DOWN)] exampleHandler) = 500"
    by (simp_all add: run_defs)
  have a2: "action (powerKey ACTION_UP) = ACTION_UP \<and>
      (shortcutsAccepts (exampleEnv True 300) (powerKey ACTION_UP)
         (run [KeyIn (exampleEnv True 0) (shortcutsKey ACTION_DOWN),
               KeyIn (exampleEnv True 100) (powerKey ACTION_DOWN)] exampleHandler) \<or>
       powerAccepts (exampleEnv True 300) (powerKey ACTION_UP)
         (run [KeyIn (exampleEnv True 0) (shortcutsKey ACTION_DOWN),
               KeyIn (exampleEnv True 100) (powerKey ACTION_DOWN)] exampleHandler))"
    by (simp add: run_defs shortcutsAccepts_def powerAccepts_def)
  have a3: "idle exampleHandler \<and> alternating False False interleavedPresses exampleHandler"
    by (simp add: idle_def interleavedPresses_def run_defs shortcutsAccepts_def
        powerAccepts_def)
  note T = pending_timers [OF c [of "exampleEnv True 100" "powerKey ACTION_DOWN"
      "run [KeyIn (exampleEnv True 0) (shortcutsKey ACTION_DOWN)] exampleHandler"],
      where x = exampleHandler and ins = interleavedPresses]
  from T a1 have "queue (snd (handleKeyEvent (exampleEnv True 100) (powerKey ACTION_DOWN)
       (run [KeyIn (exampleEnv True 0) (shortcutsKey ACTION_DOWN)] exampleHandler))) =
     enqueueMessage (uptimeMillis (exampleEnv True 100) +
          (if longPressTimeout
               (run [KeyIn (exampleEnv True 0) (shortcutsKey ACTION_DOWN)] exampleHandler) < 0
           then 0
           else longPressTimeout
               (run [KeyIn (exampleEnv True 0) (shortcutsKey ACTION_DOWN)] exampleHandler)))
       (queue (run [KeyIn (exampleEnv True 0) (shortcutsKey ACTION_DOWN)] exampleHandler))"
    by blast
  then have "queue (snd (handleKeyEvent (exampleEnv True 100) (powerKey ACTION_DOWN)
       (run [KeyIn (exampleEnv True 0) (shortcutsKey ACTION_DOWN)] exampleHandler))) = [600]"
    by (simp add: q1 exampleEnv_sel)
  moreover from T a3 have "length (queue (run interleavedPresses exampleHandler)) \<le> 1"
    by blast
  moreover from pending_timers [OF c [of "exampleEnv True 300" "powerKey ACTION_UP"
      "run [KeyIn (exampleEnv True 0) (shortcutsKey ACTION_DOWN),
            KeyIn (exampleEnv True 100) (powerKey ACTION_DOWN)] exampleHandler"]] a2
  have "queue (snd (handleKeyEvent (exampleEnv True 300) (powerKey ACTION_UP)
       (run [KeyIn (exampleEnv True 0) (shortcutsKey ACTION_DOWN),
             KeyIn (exampleEnv True 100) (powerKey ACTION_DOWN)] exampleHandler))) = []"
    by blast
  ultimately show ?thesis by simp
qed

subsection \<open>Long press and quick combination\<close>

lemma both_pressed:
  assumes "idle s"
    and "shortcutsAccepts env1 e1 s" and "action e1 = ACTION_DOWN" and "interactive env1"
    and "powerAccepts env2 e2 (run [KeyIn env1 e1] s)"
    and "action e2 = ACTION_DOWN" and "interactive env2"
  defines "s2 \<equiv> run [KeyIn env1 e1, KeyIn env2 e2] s"
  shows "out s2 = out s @
      [InjectKey (keyCode e1) ACTION_DOWN 0, InjectKey (keyCode e1) ACTION_UP FLAG_CANCELED]"
    and "shortcutsKeyPressed s2" and "powerKeyPressed s2"
    and "queue s2 =
      [uptimeMillis env2 + (if longPressTimeout s < 0 then 0 else longPressTimeout s)]"
    and "shortcutsKeyCode s2 = keyCode e1" and "powerKeyCode s2 = keyCode e2"
proof -
  define s1 where "s1 = run [KeyIn env1 e1] s"
  from assms(1) have i: "\<not> shortcutsKeyPressed s" "\<not> powerKeyPressed s" "queue s = []"
    by (simp_all add: idle_def)
  have e1: "s1 = snd (handleKeyEvent env1 e1 s)"
    by (simp add: s1_def run_single looper_idle i)
  have h1: "handleKeyEvent env1 e1 s = (fst (handleKeyEvent env1 e1 s), s1)"
    by (simp add: e1)
  note d1 = shortcuts_down [OF assms(2,3) h1]
  from d1 i assms(4) have f1: "out s1 = out s @ [InjectKey (keyCode e1) ACTION_DOWN 0]"
    "shortcutsKeyPressed s1" "\<not> powerKeyPressed s1" "queue s1 = []"
    "shortcutsKeyCode s1 = keyCode e1"
    by simp_all
  have l1: "longPressTimeout s1 = longPressTimeout s"
    by (simp add: e1 longPressTimeout_handleKeyEvent)
  have s2: "s2 = step (KeyIn env2 e2) s1"
    by (simp add: s2_def s1_def run_def)
  have h2: "handleKeyEvent env2 e2 s1 = (fst (handleKeyEvent env2 e2 s1), s2)"
    by (simp add: s2 looper_idle f1)
  from assms(5) have a2: "powerAccepts env2 e2 s1" by (simp add: s1_def)
  note d2 = power_down [OF a2 assms(6) h2]
  from d2 f1 l1 assms(7)
  show "out s2 = out s @
      [InjectKey (keyCode e1) ACTION_DOWN 0, InjectKey (keyCode e1) ACTION_UP FLAG_CANCELED]"
    and "shortcutsKeyPressed s2" and "powerKeyPressed s2"
    and "queue s2 =
      [uptimeMillis env2 + (if longPressTimeout s < 0 then 0 else longPressTimeout s)]"
    and "shortcutsKeyCode s2 = keyCode e1" and "powerKeyCode s2 = keyCode e2"
    by simp_all
qed

text \<open>
  Claim C6. From an idle handler, a Shortcuts down-edge and then a Power down-edge, both
  accepted while interactive, followed by no key event until the long-press timeout has
  passed since the Power down-edge: the handler has requested exactly one partial
  screenshot, followed by a cancelled up-injection for each learned key code (after the
  genuine down and the cancelled up of the Shortcuts key that the two down-edges
  injected); both pressed flags are false and nothing is pending, so any further waiting
  changes nothing. The deferred action run in a state where a pressed flag is false does
  nothing at all.
\<close>

theorem long_press_resolution:
  assumes "idle s"
    and "shortcutsAccepts env1 e1 s" and "action e1 = ACTION_DOWN" and "interactive env1"
    and "powerAccepts env2 e2 (run [KeyIn env1 e1] s)"
    and "action e2 = ACTION_DOWN" and "interactive env2"
    and "0 \<le> longPressTimeout s" and "uptimeMillis env2 + longPressTimeout s \<le> t"
  shows
    "out (run [KeyIn env1 e1, KeyIn env2 e2, Wait t] s) = out s @
       [InjectKey (keyCode e1) ACTION_DOWN 0, InjectKey (keyCode e1) ACTION_UP FLAG_CANCELED,
        TakeScreenshot True,
        InjectKey (keyCode e1) ACTION_UP FLAG_CANCELED,
        InjectKey (keyCode e2) ACTION_UP FLAG_CANCELED] \<and>
     screenshots True (out (run [KeyIn env1 e1, KeyIn env2 e2, Wait t] s)) =
       screenshots True (out s) + 1 \<and>
     idle (run [KeyIn env1 e1, KeyIn env2 e2, Wait t] s) \<and>
     run ([KeyIn env1 e1, KeyIn env2 e2, Wait t] @ map Wait ts) s =
       run [KeyIn env1 e1, KeyIn env2 e2, Wait t] s \<and>
     (\<not> (shortcutsKeyPressed x \<and> powerKeyPressed x) \<longrightarrow> triggerPartialScreenshot x = x)"
proof -
  define s2 where "s2 = run [KeyIn env1 e1, KeyIn env2 e2] s"
  define s3 where "s3 = run [KeyIn env1 e1, KeyIn env2 e2, Wait t] s"
  note b = both_pressed [OF assms(1-7), folded s2_def]
  have s3: "s3 = looper t s2" by (simp add: s3_def s2_def run_def)
  have s3': "s3 = triggerPartialScreenshot (s2\<lparr>queue := []\<rparr>)"
    using b(4) assms(8,9) by (simp add: s3 looper_def)
  have o: "out s3 = out s @
       [InjectKey (keyCode e1) ACTION_DOWN 0, InjectKey (keyCode e1) ACTION_UP FLAG_CANCELED,
        TakeScreenshot True,
        InjectKey (keyCode e1) ACTION_UP FLAG_CANCELED,
        InjectKey (keyCode e2) ACTION_UP FLAG_CANCELED]"
    using b by (simp add: s3' triggerPartialScreenshot_def platform_defs Let_def)
  have i: "idle s3"
    using b by (simp add: s3' idle_def triggerPartialScreenshot_def platform_defs Let_def)
  have n: "screenshots True (out s3) = screenshots True (out s) + 1"
    by (simp add: o screenshots_append) (simp add: screenshots_def)
  have w: "run ([KeyIn env1 e1, KeyIn env2 e2, Wait t] @ map Wait ts) s = s3"
    using i run_waits_idle [of s3 ts] by (simp add: run_def s3_def idle_def)
  from o n i w trigger_resolved [of x] show ?thesis by (simp add: s3_def)
qed

theorem long_press_resolution_witness:
  "out (run [KeyIn (exampleEnv True 0) (shortcutsKey ACTION_DOWN),
             KeyIn (exampleEnv True 100) (powerKey ACTION_DOWN), Wait 600] exampleHandler) =
     [InjectKey 300 ACTION_DOWN 0, InjectKey 300 ACTION_UP FLAG_CANCELED,
      TakeScreenshot True,
      InjectKey 300 ACTION_UP FLAG_CANCELED, InjectKey 26 ACTION_UP FLAG_CANCELED] \<and>
   screenshots True
     (out (run [KeyIn (exampleEnv True 0) (shortcutsKey ACTION_DOWN),
                KeyIn (exampleEnv True 100) (powerKey ACTION_DOWN), Wait 600] exampleHandler)) = 1 \<and>
   idle (run [KeyIn (exampleEnv True 0) (shortcutsKey ACTION_DOWN),
              KeyIn (exampleEnv True 100) (powerKey ACTION_DOWN), Wait 600] exampleHandler) \<and>
   run ([KeyIn (exampleEnv True 0) (shortcutsKey ACTION_DOWN),
         KeyIn (exampleEnv True 100) (powerKey ACTION_DOWN), Wait 600] @ map Wait [1100, 5000])
       exampleHandler =
     run [KeyIn (exampleEnv True 0) (shortcutsKey ACTION_DOWN),
          KeyIn (exampleEnv True 100) (powerKey ACTION_DOWN), Wait 600] exampleHandler \<and>
   triggerPartialScreenshot exampleHandler = exampleHandler"
proof -
  have l: "0 \<le> longPressTimeout exampleHandler"
    "uptimeMillis (exampleEnv True 100) + longPressTimeout exampleHandler \<le> 600"
    "\<not> (shortcutsKeyPressed exampleHandler \<and> powerKeyPressed exampleHandler)"
    "out exampleHandler = []"
    by (simp_all add: exampleHandler_eq exampleEnv_sel)
  from long_press_resolution [OF example_gesture(1) example_accepts(1) exampleKey_sel(1)
      exampleEnv_on example_gesture(2) exampleKey_sel(3) exampleEnv_on l(1,2),
      of "[1100, 5000]" exampleHandler] l(3)
  show ?thesis by (simp add: l(4) exampleKey_sel screenshots_def)
qed

text \<open>
  Claim C7. From an idle handler, a Shortcuts down-edge and a Power down-edge, both
  accepted while interactive, and an accepted Power up-edge before the long-press timeout
  has passed since the Power down-edge: exactly one full-screen screenshot is requested
  and no partial one; both pressed flags are false and the pending post is removed, so
  any further waiting changes nothing.
\<close>

theorem quick_combo_resolution:
  assumes "idle s"
    and "shortcutsAccepts env1 e1 s" and "action e1 = ACTION_DOWN" and "interactive env1"
    and "powerAccepts env2 e2 (run [KeyIn env1 e1] s)"
    and "action e2 = ACTION_DOWN" and "interactive env2"
    and "powerAccepts env3 e3 (run [KeyIn env1 e1, KeyIn env2 e2] s)"
    and "action e3 = ACTION_UP"
    and "uptimeMillis env3 < uptimeMillis env2 + longPressTimeout s"
  shows
    "out (run [KeyIn env1 e1, KeyIn env2 e2, KeyIn env3 e3] s) = out s @
       [InjectKey (keyCode e1) ACTION_DOWN 0, InjectKey (keyCode e1) ACTION_UP FLAG_CANCELED,
        TakeScreenshot False] \<and>
     screenshots False (out (run [KeyIn env1 e1, KeyIn env2 e2, KeyIn env3 e3] s)) =
       screenshots False (out s) + 1 \<and>
     screenshots True (out (run [KeyIn env1 e1, KeyIn env2 e2, KeyIn env3 e3] s)) =
       screenshots True (out s) \<and>
     idle (run [KeyIn env1 e1, KeyIn env2 e2, KeyIn env3 e3] s) \<and>
     run ([KeyIn env1 e1, KeyIn env2 e2, KeyIn env3 e3] @ map Wait ts) s =
       run [KeyIn env1 e1, KeyIn env2 e2, KeyIn env3 e3] s"
proof -
  define s2 where "s2 = run [KeyIn env1 e1, KeyIn env2 e2] s"
  define s3 where "s3 = run [KeyIn env1 e1, KeyIn env2 e2, KeyIn env3 e3] s"
  note b = both_pressed [OF assms(1-7), folded s2_def]
  from assms(10) b(4) have due: "filter (\<lambda>w. w \<le> uptimeMillis env3) (queue s2) = []"
    "filter (\<lambda>w. \<not> w \<le> uptimeMillis env3) (queue s2) = queue s2" by auto
  have l: "looper (uptimeMillis env3) s2 = s2"
    by (simp add: looper_def due)
  have s3: "s3 = snd (handleKeyEvent env3 e3 s2)"
    by (simp add: s3_def s2_def run_def l [unfolded s2_def run_def, simplified])
  have h3: "handleKeyEvent env3 e3 s2 = (fst (handleKeyEvent env3 e3 s2), s3)"
    by (simp add: s3)
  from assms(8) have a3: "powerAccepts env3 e3 s2" by (simp add: s2_def)
  note u = power_up [OF a3 assms(9) h3]
  have o: "out s3 = out s @
       [InjectKey (keyCode e1) ACTION_DOWN 0, InjectKey (keyCode e1) ACTION_UP FLAG_CANCELED,
        TakeScreenshot False]"
    using u(2) b by simp
  have i: "idle s3" using u by (simp add: idle_def)
  have n: "screenshots False (out s3) = screenshots False (out s) + 1"
    "screenshots True (out s3) = screenshots True (out s)"
    by (simp_all add: o screenshots_append) (simp_all add: screenshots_def)
  have w: "run ([KeyIn env1 e1, KeyIn env2 e2, KeyIn env3 e3] @ map Wait ts) s = s3"
    using i run_waits_idle [of s3 ts] by (simp add: run_def s3_def idle_def)
  from o n i w show ?thesis by (simp add: s3_def)
qed

theorem quick_combo_resolution_witness:
  "out (run [KeyIn (exampleEnv True 0) (shortcutsKey ACTION_DOWN),
             KeyIn (exampleEnv True 100) (powerKey ACTION_DOWN),
             KeyIn (exampleEnv True 300) (powerKey ACTION_UP)] exampleHandler) =
     [InjectKey 300 ACTION_DOWN 0, InjectKey 300 ACTION_UP FLAG_CANCELED,
      TakeScreenshot False] \<and>
   screenshots False
     (out (run [KeyIn (exampleEnv True 0) (shortcutsKey ACTION_DOWN),
                KeyIn (exampleEnv True 100) (powerKey ACTION_DOWN),
                KeyIn (exampleEnv True 300) (powerKey ACTION_UP)] exampleHandler)) = 1 \<and>
   screenshots True
     (out (run [KeyIn (exampleEnv True 0) (shortcutsKey ACTION_DOWN),
                KeyIn (exampleEnv True 100) (powerKey ACTION_DOWN),
                KeyIn (exampleEnv True 300) (powerKey ACTION_UP)] exampleHandler)) = 0 \<and>
   idle (run [KeyIn (exampleEnv True 0) (shortcutsKey ACTION_DOWN),
              KeyIn (exampleEnv True 100) (powerKey ACTION_DOWN),
              KeyIn (exampleEnv True 300) (powerKey ACTION_UP)] exampleHandler) \<and>
   run ([KeyIn (exampleEnv True 0) (shortcutsKey ACTION_DOWN),
         KeyIn (exampleEnv True 100) (powerKey ACTION_DOWN),
         KeyIn (exampleEnv True 300) (powerKey ACTION_UP)] @ map Wait [600, 5000])
       exampleHandler =
     run [KeyIn (exampleEnv True 0) (shortcutsKey ACTION_DOWN),
          KeyIn (exampleEnv True 100) (powerKey ACTION_DOWN),
          KeyIn (exampleEnv True 300) (powerKey ACTION_UP)] exampleHandler"
proof -
  have l: "uptimeMillis (exampleEnv True 300) <
      uptimeMillis (exampleEnv True 100) + longPressTimeout exampleHandler"
    "out exampleHandler = []"
    by (simp_all add: exampleHandler_eq exampleEnv_sel)
  from quick_combo_resolution [OF example_gesture(1) example_accepts(1) exampleKey_sel(1)
      exampleEnv_on example_gesture(2) exampleKey_sel(3) exampleEnv_on
      example_gesture(3) exampleKey_sel(3) l(1), of "[600, 5000]"]
  show ?thesis by (simp add: l(2) exampleKey_sel screenshots_def)
qed

subsection \<open>Scan-code configuration\<close>

text \<open>
  Claim C2 says that a role whose file holds a decimal integer gets that scan code
  whatever the other file holds. The two \<open>parseInt\<close> calls share one \<open>try\<close> block: when
  the shortcuts line does not parse, the power line is not looked at and the power scan
  code stays 0, so that the power role does not accept the power key.
\<close>

theorem scan_code_isolation_counterexample:
  "parseInt (Some ''116'') = Some 116 \<and>
   parseInt (Some ''n/a'') = None \<and>
   powerScanCode (newKeyHandler 500 (Some ''n/a'') (Some ''116'')) = 0 \<and>
   \<not> powerAccepts (exampleEnv True 0) (powerKey ACTION_DOWN)
       (newKeyHandler 500 (Some ''n/a'') (Some ''116''))"
  by (simp add: parseInt_examples newKeyHandler_def initialFields_def powerAccepts_def
      handleShortcutsKeyEvent_def handlePowerKeyEvent_def shortcutsTrust_def powerTrust_def
      getDeviceName_def name_defs example_defs)

lemma scanCodes_trigger:
  "shortcutsScanCode (triggerPartialScreenshot s) = shortcutsScanCode s"
  "powerScanCode (triggerPartialScreenshot s) = powerScanCode s"
  by (simp_all add: triggerPartialScreenshot_def platform_defs Let_def)

lemma scanCodes_fold:
  "shortcutsScanCode (fold (\<lambda>_. triggerPartialScreenshot) ws s) = shortcutsScanCode s"
  "powerScanCode (fold (\<lambda>_. triggerPartialScreenshot) ws s) = powerScanCode s"
  by (induction ws arbitrary: s) (simp_all add: scanCodes_trigger)

lemma scanCodes_handleKeyEvent:
  "shortcutsScanCode (snd (handleKeyEvent env event s)) = shortcutsScanCode s"
  "powerScanCode (snd (handleKeyEvent env event s)) = powerScanCode s"
  by (simp_all add: handleKeyEvent_snd handleShortcutsKeyEvent_def handlePowerKeyEvent_def
      shortcutsTrust_def powerTrust_def shortcutsSwitch_def powerSwitch_def platform_defs
      Let_def)

lemma scanCodes_step:
  "shortcutsScanCode (step i s) = shortcutsScanCode s"
  "powerScanCode (step i s) = powerScanCode s"
  by (cases i; simp add: scanCodes_handleKeyEvent looper_def scanCodes_fold)+

lemma scanCodes_run:
  "shortcutsScanCode (run ins s) = shortcutsScanCode s"
  "powerScanCode (run ins s) = powerScanCode s"
  unfolding run_def by (induction ins arbitrary: s) (simp_all add: scanCodes_step)

lemma accepts_scanCode:
  "shortcutsAccepts env event s \<Longrightarrow> scanCode event = shortcutsScanCode s"
  "powerAccepts env event s \<Longrightarrow> scanCode event = powerScanCode s"
  by (auto simp: shortcutsAccepts_def powerAccepts_def handleShortcutsKeyEvent_def
      handlePowerKeyEvent_def shortcutsTrust_def powerTrust_def split: if_splits)

text \<open>
  Claim C2, as the code has it. The constructor always returns a handler. A shortcuts
  line that parses sets the shortcuts scan code whatever the power line holds; a power
  line that parses sets the power scan code when the shortcuts line parses too. A role
  whose own line does not parse keeps the scan code 0. The scan codes never change
  afterwards: in every later state a role accepts only events whose scan code is the one
  the constructor left, so a role left at 0 accepts no event with another scan code.
\<close>

theorem scan_code_configuration:
  "(parseInt shortcutsLine = Some a \<longrightarrow>
      shortcutsScanCode (newKeyHandler lpt shortcutsLine powerLine) = a) \<and>
   (parseInt shortcutsLine = Some a \<and> parseInt powerLine = Some b \<longrightarrow>
      powerScanCode (newKeyHandler lpt shortcutsLine powerLine) = b) \<and>
   (parseInt shortcutsLine = None \<longrightarrow>
      shortcutsScanCode (newKeyHandler lpt shortcutsLine powerLine) = 0) \<and>
   (parseInt powerLine = None \<longrightarrow>
      powerScanCode (newKeyHandler lpt shortcutsLine powerLine) = 0) \<and>
   (shortcutsAccepts env event (run ins (newKeyHandler lpt shortcutsLine powerLine)) \<longrightarrow>
      scanCode event = shortcutsScanCode (newKeyHandler lpt shortcutsLine powerLine)) \<and>
   (powerAccepts env event (run ins (newKeyHandler lpt shortcutsLine powerLine)) \<longrightarrow>
      scanCode event = powerScanCode (newKeyHandler lpt shortcutsLine powerLine))"
proof -
  have "scanCode event = shortcutsScanCode (newKeyHandler lpt shortcutsLine powerLine)"
    if "shortcutsAccepts env event (run ins (newKeyHandler lpt shortcutsLine powerLine))"
    using accepts_scanCode(1) [OF that] by (simp add: scanCodes_run)
  moreover have "scanCode event = powerScanCode (newKeyHandler lpt shortcutsLine powerLine)"
    if "powerAccepts env event (run ins (newKeyHandler lpt shortcutsLine powerLine))"
    using accepts_scanCode(2) [OF that] by (simp add: scanCodes_run)
  ultimately show ?thesis
    by (auto simp: newKeyHandler_def initialFields_def Let_def split: option.splits)
qed

theorem scan_code_configuration_witness:
  "shortcutsScanCode (newKeyHandler 500 (Some ''250'') (Some ''n/a'')) = 250 \<and>
   powerScanCode (newKeyHandler 500 (Some ''250'') (Some ''n/a'')) = 0 \<and>
   powerScanCode (newKeyHandler 500 (Some ''250'') (Some ''116'')) = 116 \<and>
   shortcutsScanCode (newKeyHandler 500 (Some ''n/a'') (Some ''116'')) = 0 \<and>
   scanCode (shortcutsKey ACTION_DOWN) = 250 \<and>
   scanCode (powerKey ACTION_DOWN) = 116"
proof -
  have a: "shortcutsAccepts (exampleEnv True 0) (shortcutsKey ACTION_DOWN)
      (run [] (newKeyHandler 500 (Some ''250'') (Some ''116'')))"
    "powerAccepts (exampleEnv True 0) (powerKey ACTION_DOWN)
      (run [] (newKeyHandler 500 (Some ''250'') (Some ''116'')))"
    using example_accepts [of True 0 ACTION_DOWN] by (simp_all add: run_def exampleHandler_def)
  note T1 = scan_code_configuration [of "Some ''250''" 250 500 "Some ''n/a''" 0
      "exampleEnv True 0" "shortcutsKey ACTION_DOWN" "[]"]
  note T2 = scan_code_configuration [of "Some ''250''" 250 500 "Some ''116''" 116
      "exampleEnv True 0" "shortcutsKey ACTION_DOWN" "[]"]
  note T3 = scan_code_configuration [of "Some ''n/a''" 0 500 "Some ''116''" 116
      "exampleEnv True 0" "shortcutsKey ACTION_DOWN" "[]"]
  note T4 = scan_code_configuration [of "Some ''250''" 250 500 "Some ''116''" 116
      "exampleEnv True 0" "powerKey ACTION_DOWN" "[]"]
  from T1 parseInt_examples
  have "shortcutsScanCode (newKeyHandler 500 (Some ''250'') (Some ''n/a'')) = 250"
    and "powerScanCode (newKeyHandler 500 (Some ''250'') (Some ''n/a'')) = 0" by blast+
  moreover from T2 parseInt_examples a(1)
  have "powerScanCode (newKeyHandler 500 (Some ''250'') (Some ''116'')) = 116"
    and "scanCode (shortcutsKey ACTION_DOWN) =
      shortcutsScanCode (newKeyHandler 500 (Some ''250'') (Some ''116''))"
    and "shortcutsScanCode (newKeyHandler 500 (Some ''250'') (Some ''116'')) = 250" by blast+
  moreover from T3 parseInt_examples
  have "shortcutsScanCode (newKeyHandler 500 (Some ''n/a'') (Some ''116'')) = 0" by blast
  moreover from T4 a(2)
  have "scanCode (powerKey ACTION_DOWN) =
      powerScanCode (newKeyHandler 500 (Some ''250'') (Some ''116''))" by blast
  ultimately show ?thesis by simp
qed

end
